theory Spec2Isabelle
  imports
    Complex_Main
    "HOL-Library.Word"
    "HOL-Library.Char_ord"
    "HOL-Library.List_Lexorder"
    "HOL-Library.Sublist"
    "HOL-Library.Multiset"
    "HOL-Library.Signed_Division"
    "HOL-Library.AList"
begin

section \<open>github-lang-rank: the aggregation and rendering pipeline of main.go\<close>

text \<open>
  The program sums per-repository language byte counts, ranks the languages and draws
  the ranking as an SVG card. This theory embeds the functions of \<^verbatim>\<open>main.go\<close> that carry
  the pipeline and proves properties of them.

  Conventions of the embedding.
  \<^item> Go's \<^verbatim>\<open>int64\<close> is \<open>64 word\<close>: \<open>+\<close> wraps around, and the signed comparisons of the
    source read the word through \<open>sint\<close>.
  \<^item> Go's \<^verbatim>\<open>int\<close> is 64 bits wide. Where its value depends on the byte counts, as
    \<^verbatim>\<open>segmentWidth\<close> and \<^verbatim>\<open>accumX\<close> in the bar loop do, it is a \<open>64 word\<close> too. The list
    lengths, indices and pixel positions of the layout, which the length of the ranking
    bounds, are \<open>int\<close>; \<^verbatim>\<open>/\<close> and \<^verbatim>\<open>%\<close> are the truncating \<open>sdiv\<close> and \<open>smod\<close>.
  \<^item> Go's \<^verbatim>\<open>string\<close> is a byte sequence, here \<open>string\<close>; \<^verbatim>\<open><\<close> on strings is the
    lexicographic order on bytes, which is the order of \<open>HOL-Library.Char_ord\<close> lifted by
    \<open>HOL-Library.List_Lexorder\<close>.
  \<^item> A Go \<^verbatim>\<open>map\<close> is an association list with distinct keys. The order of the list is
    the order in which a \<^verbatim>\<open>range\<close> loop happens to visit the map; Go leaves that order
    open, so the properties below are stated for every list that represents the map.
  \<^item> An \<^verbatim>\<open>error\<close> is a value; a function that can fail returns \<open>error + 'a\<close> or, when it
    also changes the file system, a pair of an optional error and the new state.
  \<^item> Names are those of the source. Three variables are renamed because HOL has constants
    of their names: \<^verbatim>\<open>top\<close> is \<open>topN\<close>, \<^verbatim>\<open>total\<close> is \<open>totals\<close> and \<^verbatim>\<open>less\<close> is \<open>lessFn\<close>.
\<close>

type_synonym int64 = "64 word"

datatype error = Error string

record repo =
  Name :: string
  FullName :: string
  Fork :: bool
  Archived :: bool

record langStat =
  Lang :: string
  Bytes :: int64

text \<open>A \<^verbatim>\<open>map[string]int64\<close> in one of its iteration orders.\<close>

type_synonym langMap = "(string \<times> int64) list"

subsection \<open>collapseOthers\<close>

text \<open>
  \<^verbatim>\<open>for _, item := range ranked[top:] { otherBytes += item.Bytes }\<close> and the same loop
  over the whole sequence in \<^verbatim>\<open>writeSVG\<close>: a running \<^verbatim>\<open>int64\<close> sum that starts at 0.
\<close>

definition sumBytes :: "langStat list \<Rightarrow> int64" where
  "sumBytes items = fold (\<lambda>item acc. acc + Bytes item) items 0"

definition collapseOthers :: "langStat list \<Rightarrow> int \<Rightarrow> bool \<Rightarrow> langStat list" where
  "collapseOthers ranked topN showOther =
     (if topN \<le> 0 \<or> int (length ranked) \<le> topN then ranked
      else
        let keep = take (nat topN) ranked in
        if \<not> showOther then keep
        else
          let otherBytes = sumBytes (drop (nat topN) ranked) in
          if 0 < sint otherBytes
          then keep @ [\<lparr>Lang = ''Other'', Bytes = otherBytes\<rparr>]
          else keep)"

subsection \<open>Library functions the program calls\<close>

text \<open>
  \<^verbatim>\<open>strings.ToLower\<close>. When every byte of the string is below \<^verbatim>\<open>0x80\<close> the function lowers
  the letters \<^verbatim>\<open>A\<close> to \<^verbatim>\<open>Z\<close> byte by byte; otherwise it returns
  \<^verbatim>\<open>Map(unicode.ToLower, s)\<close>, the Unicode case mapping applied to the decoded runes. The
  Unicode tables are not part of the model: that mapping is the parameter \<open>uniLower\<close>, which
  \<open>toLower\<close> and every function that calls it take as their first argument. What is proved
  holds for every such function.
\<close>

definition lowerByte :: "char \<Rightarrow> char" where
  "lowerByte c =
     (if CHR ''A'' \<le> c \<and> c \<le> CHR ''Z'' then char_of (of_char c + (32::nat)) else c)"

definition isASCII :: "string \<Rightarrow> bool" where
  "isASCII s = list_all (\<lambda>c. of_char c < (128::nat)) s"

definition toLower :: "(string \<Rightarrow> string) \<Rightarrow> string \<Rightarrow> string" where
  "toLower uniLower s = (if isASCII s then map lowerByte s else uniLower s)"

text \<open>
  \<^verbatim>\<open>sort.Slice(stats, less)\<close>. Go promises a permutation of the slice that is sorted by
  \<^verbatim>\<open>less\<close> and nothing about the order of elements that \<^verbatim>\<open>less\<close> does not separate. The
  model inserts one element after the other; lemma \<open>sorted_by_unique\<close> shows that for the
  comparison used by \<^verbatim>\<open>rankLanguages\<close> every sorted permutation is the same list.
\<close>

fun insertBy :: "('a \<Rightarrow> 'a \<Rightarrow> bool) \<Rightarrow> 'a \<Rightarrow> 'a list \<Rightarrow> 'a list" where
  "insertBy lessFn x [] = [x]"
| "insertBy lessFn x (y # ys) =
     (if lessFn y x then y # insertBy lessFn x ys else x # y # ys)"

definition sort_Slice :: "('a \<Rightarrow> 'a \<Rightarrow> bool) \<Rightarrow> 'a list \<Rightarrow> 'a list" where
  "sort_Slice lessFn xs = foldr (insertBy lessFn) xs []"

text \<open>\<^verbatim>\<open>sort.Strings\<close>: ascending in the byte order of strings.\<close>

definition sort_Strings :: "string list \<Rightarrow> string list" where
  "sort_Strings xs = sort xs"

text \<open>\<^verbatim>\<open>strings.Join(elems, sep)\<close>.\<close>

fun strings_Join :: "string list \<Rightarrow> string \<Rightarrow> string" where
  "strings_Join [] sep = []"
| "strings_Join [x] sep = x"
| "strings_Join (x # y # ys) sep = x @ sep @ strings_Join (y # ys) sep"

text \<open>
  \<^verbatim>\<open>strings.NewReplacer(old1, new1, ...).Replace(s)\<close>: the input is read from left to
  right; at each position the first pair, in argument order, whose old string starts
  there is replaced by its new string and the scan goes on behind the match; where no
  pair matches, one byte is copied. A pair with an empty old string, which the program
  does not use, is passed over.
\<close>

function replacer_Replace :: "(string \<times> string) list \<Rightarrow> string \<Rightarrow> string" where
  "replacer_Replace pairs [] = []"
| "replacer_Replace pairs (c # cs) =
     (case find (\<lambda>p. fst p \<noteq> [] \<and> prefix (fst p) (c # cs)) pairs of
        Some p \<Rightarrow> snd p @ replacer_Replace pairs (drop (length (fst p)) (c # cs))
      | None \<Rightarrow> c # replacer_Replace pairs cs)"
  by pat_completeness auto
termination
  by (relation "measure (\<lambda>(pairs, s). length s)") (auto simp: find_Some_iff)

subsection \<open>fetchLanguages\<close>

text \<open>\<^verbatim>\<open>total[lang]\<close> read on a map: the zero value when the key is absent.\<close>

definition mapIndex :: "langMap \<Rightarrow> string \<Rightarrow> int64" where
  "mapIndex totals lang = (case map_of totals lang of Some v \<Rightarrow> v | None \<Rightarrow> 0)"

text \<open>\<^verbatim>\<open>for lang, bytes := range langs { total[lang] += bytes }\<close>\<close>

fun addLangs :: "langMap \<Rightarrow> langMap \<Rightarrow> langMap" where
  "addLangs [] totals = totals"
| "addLangs ((lang, bytes) # rest) totals =
     addLangs rest (AList.update lang (mapIndex totals lang + bytes) totals)"

text \<open>
  The loop over the repositories. \<open>getJSON url token\<close> stands for the HTTP request and the
  JSON decoding of its answer into a \<^verbatim>\<open>map[string]int64\<close>; it is the external language
  source and a parameter of the model.
\<close>

definition languagesURL :: "repo \<Rightarrow> string" where
  "languagesURL r = ''https://api.github.com'' @ ''/repos/'' @ FullName r @ ''/languages''"

fun fetchLoop ::
  "(string \<Rightarrow> string \<Rightarrow> error + langMap) \<Rightarrow> string \<Rightarrow> repo list \<Rightarrow> langMap \<Rightarrow> error + langMap"
where
  "fetchLoop getJSON token [] totals = Inr totals"
| "fetchLoop getJSON token (r # rs) totals =
     (let url = languagesURL r in
      case getJSON url token of
        Inl (Error msg) \<Rightarrow> Inl (Error (''languages for '' @ FullName r @ '': '' @ msg))
      | Inr langs \<Rightarrow> fetchLoop getJSON token rs (addLangs langs totals))"

definition fetchLanguages ::
  "(string \<Rightarrow> string \<Rightarrow> error + langMap) \<Rightarrow> repo list \<Rightarrow> string \<Rightarrow> error + langMap"
where
  "fetchLanguages getJSON repos token = fetchLoop getJSON token repos []"

subsection \<open>rankLanguages\<close>

text \<open>The closure handed to \<^verbatim>\<open>sort.Slice\<close>, on the two elements it compares.\<close>

definition rankLess :: "langStat \<Rightarrow> langStat \<Rightarrow> bool" where
  "rankLess a b =
     (if Bytes a = Bytes b then Lang a < Lang b else sint (Bytes b) < sint (Bytes a))"

text \<open>\<^verbatim>\<open>langStat{Lang: lang, Bytes: bytes}\<close> for one entry of the map.\<close>

definition toStat :: "string \<times> int64 \<Rightarrow> langStat" where
  "toStat entry = (case entry of (lang, bytes) \<Rightarrow> \<lparr>Lang = lang, Bytes = bytes\<rparr>)"

definition rankLanguages :: "langMap \<Rightarrow> langStat list" where
  "rankLanguages totals = sort_Slice rankLess (map toStat totals)"

subsection \<open>applyExcludes\<close>

text \<open>
  \<^verbatim>\<open>normalized[strings.ToLower(item)] = item\<close> for every exclude term, in order: a later
  term replaces an earlier one that has the same lower-case form.
\<close>

definition normalizedExcludes :: "(string \<Rightarrow> string) \<Rightarrow> string list \<Rightarrow> (string \<times> string) list" where
  "normalizedExcludes uniLower excludes =
     fold (\<lambda>item normalized. AList.update (toLower uniLower item) item normalized) excludes []"

text \<open>
  The loop over the aggregate. The first argument is what is left to visit; the state is
  the aggregate and the \<^verbatim>\<open>removed\<close> slice. Deleting the key being visited does not
  disturb the rest of a Go \<^verbatim>\<open>range\<close>.
\<close>

fun excludeLoop ::
  "(string \<Rightarrow> string) \<Rightarrow> (string \<times> string) list \<Rightarrow> langMap \<Rightarrow> langMap \<times> string list \<Rightarrow> langMap \<times> string list"
where
  "excludeLoop uniLower normalized [] st = st"
| "excludeLoop uniLower normalized ((lang, bytes) # rest) (totals, removed) =
     (case map_of normalized (toLower uniLower lang) of
        Some original \<Rightarrow>
          excludeLoop uniLower normalized rest (AList.delete lang totals, removed @ [original])
      | None \<Rightarrow> excludeLoop uniLower normalized rest (totals, removed))"

text \<open>
  The function changes \<^verbatim>\<open>total\<close> in place and returns \<^verbatim>\<open>removed\<close>; the model returns
  both.
\<close>

definition applyExcludes ::
  "(string \<Rightarrow> string) \<Rightarrow> langMap \<Rightarrow> string list \<Rightarrow> langMap \<times> string list" where
  "applyExcludes uniLower totals excludes =
     (if length excludes = 0 then (totals, [])
      else
        let normalized = normalizedExcludes uniLower excludes;
            (totals', removed) = excludeLoop uniLower normalized totals (totals, [])
        in (totals', sort_Strings removed))"

subsection \<open>escapeText and colorForLanguage\<close>

definition escapeText :: "string \<Rightarrow> string" where
  \<open>escapeText input =
     replacer_Replace
       [(''&'', ''&amp;''),
        (''<'', ''&lt;''),
        (''>'', ''&gt;''),
        (''"'', ''&quot;''),
        ([CHR 0x27], ''&apos;'')]
       input\<close>

definition languageColors :: "(string \<times> string) list" where
  "languageColors =
     [(''go'', ''#00ADD8''),
      (''python'', ''#3572A5''),
      (''javascript'', ''#f1e05a''),
      (''typescript'', ''#3178c6''),
      (''java'', ''#b07219''),
      (''php'', ''#4F5D95''),
      (''ruby'', ''#701516''),
      (''c'', ''#555555''),
      (''c++'', ''#f34b7d''),
      (''c#'', ''#178600''),
      (''swift'', ''#F05138''),
      (''kotlin'', ''#A97BFF''),
      (''rust'', ''#dea584''),
      (''scala'', ''#c22d40''),
      (''shell'', ''#89e051''),
      (''html'', ''#e34c26''),
      (''css'', ''#563d7c''),
      (''vue'', ''#41b883''),
      (''dart'', ''#00B4AB''),
      (''lua'', ''#000080''),
      (''r'', ''#198CE7''),
      (''matlab'', ''#e16737''),
      (''makefile'', ''#427819''),
      (''hcl'', ''#844FBA''),
      (''dockerfile'', ''#384d54'')]"

definition colorForLanguage :: "(string \<Rightarrow> string) \<Rightarrow> string \<Rightarrow> string \<Rightarrow> string" where
  "colorForLanguage uniLower lang fallback =
     (case map_of languageColors (toLower uniLower lang) of
        Some color \<Rightarrow> color
      | None \<Rightarrow> fallback)"

subsection \<open>float64 arithmetic and formatting\<close>

text \<open>
  \<^verbatim>\<open>writeSVG\<close> computes the share of an entry in \<^verbatim>\<open>float64\<close>. A \<^verbatim>\<open>float64\<close> is modelled
  by its sign bit and its magnitude, a rational number; every operation computes the exact
  result and rounds it to 53 significant bits, to nearest and ties to even, as IEEE 754
  prescribes. The exponent range is not modelled: the program only forms quotients of
  64-bit integers and their products with 584 and 100, which are zero or lie between
  \<open>2\<^sup>-\<^sup>6\<^sup>3\<close> and \<open>2\<^sup>7\<^sup>3\<close>, far inside the normal range. The program divides by
  \<^verbatim>\<open>float64(totalBytes)\<close> only after it has checked that \<^verbatim>\<open>totalBytes\<close> is not zero, so no
  infinity and no NaN arises.
\<close>

record f64 =
  f64_neg :: bool
  f64_mag :: rat

text \<open>The number of binary digits of \<open>n\<close>.\<close>

fun bitlen :: "nat \<Rightarrow> nat" where
  "bitlen n = (if n = 0 then 0 else Suc (bitlen (n div 2)))"

declare bitlen.simps [simp del]

text \<open>For \<open>x > 0\<close>, the \<open>e\<close> with \<open>2\<^sup>e \<le> x < 2\<^sup>e\<^sup>+\<^sup>1\<close>.\<close>

definition floorLog2 :: "rat \<Rightarrow> int" where
  "floorLog2 x =
     (if 1 \<le> x then int (bitlen (nat \<lfloor>x\<rfloor>)) - 1
      else - int (bitlen (nat (\<lceil>1 / x\<rceil> - 1))))"

text \<open>The nearest integer, the even one of two that are equally near.\<close>

definition roundEven :: "rat \<Rightarrow> int" where
  "roundEven q =
     (let n = \<lfloor>q\<rfloor>; r = q - of_int n
      in if r < 1 / 2 then n else if 1 / 2 < r then n + 1 else if even n then n else n + 1)"

definition f64_round :: "rat \<Rightarrow> rat" where
  "f64_round x =
     (if x = 0 then 0
      else let u = 2 powi (floorLog2 x - 52) in of_int (roundEven (x / u)) * u)"

text \<open>\<^verbatim>\<open>float64(n)\<close> for an integer \<open>n\<close>.\<close>

definition f64_of_int :: "int \<Rightarrow> f64" where
  "f64_of_int n = \<lparr>f64_neg = (n < 0), f64_mag = f64_round (of_int \<bar>n\<bar>)\<rparr>"

definition f64_div :: "f64 \<Rightarrow> f64 \<Rightarrow> f64" where
  "f64_div a b =
     \<lparr>f64_neg = (f64_neg a \<noteq> f64_neg b), f64_mag = f64_round (f64_mag a / f64_mag b)\<rparr>"

definition f64_mul :: "f64 \<Rightarrow> f64 \<Rightarrow> f64" where
  "f64_mul a b =
     \<lparr>f64_neg = (f64_neg a \<noteq> f64_neg b), f64_mag = f64_round (f64_mag a * f64_mag b)\<rparr>"

text \<open>
  \<^verbatim>\<open>int(f)\<close>: the fraction is dropped and the result is a 64-bit \<^verbatim>\<open>int\<close>. When the value
  does not fit 64 bits Go leaves the result to the implementation; the model takes that
  of amd64, the most negative integer.
\<close>

definition int_of_f64 :: "f64 \<Rightarrow> int64" where
  "int_of_f64 f =
     (let t = \<lfloor>f64_mag f\<rfloor>; v = (if f64_neg f then - t else t)
      in if - (2 ^ 63) \<le> v \<and> v < 2 ^ 63 then of_int v else - (2 ^ 63))"

definition digitChar :: "nat \<Rightarrow> char" where
  "digitChar d = char_of (48 + d)"

fun showNat :: "nat \<Rightarrow> string" where
  "showNat n = (if n < 10 then [digitChar n] else showNat (n div 10) @ [digitChar (n mod 10)])"

declare showNat.simps [simp del]

text \<open>The verb \<^verbatim>\<open>%d\<close>.\<close>

definition fmt_d :: "int \<Rightarrow> string" where
  "fmt_d n = (if n < 0 then ''-'' @ showNat (nat (- n)) else showNat (nat n))"

text \<open>The verb \<^verbatim>\<open>%.2f\<close>: the exact value rounded to two decimals, ties to even.\<close>

definition fmt_2f :: "f64 \<Rightarrow> string" where
  "fmt_2f f =
     (let n = nat (roundEven (f64_mag f * 100))
      in (if f64_neg f then ''-'' else []) @ showNat (n div 100) @ ''.'' @
         [digitChar (n mod 100 div 10), digitChar (n mod 10)])"

subsection \<open>writeSVG\<close>

definition width :: int where "width = 640"
definition height :: int where "height = 320"
definition cardPadding :: int where "cardPadding = 28"

definition colors :: "string list" where
  "colors = [''#f2c94c'', ''#2d9cdb'', ''#27ae60'', ''#bb6bd9'', ''#56ccf2'', ''#eb5757'']"

definition headerHeight :: int where "headerHeight = 24"
definition headerGap :: int where "headerGap = 18"
definition barHeight :: int where "barHeight = 14"
definition barGap :: int where "barGap = 22"
definition tileHeight :: int where "tileHeight = 72"
definition tileGap :: int where "tileGap = 16"
definition barX :: int where "barX = cardPadding"
definition barWidth :: int where "barWidth = width - cardPadding * 2"

definition newline :: string where "newline = [CHR 0x0A]"

text \<open>
  The value of \<^verbatim>\<open>float64(item.Bytes) / float64(totalBytes)\<close>, which both loops compute.
\<close>

definition share :: "int64 \<Rightarrow> int64 \<Rightarrow> f64" where
  "share bytes totalBytes = f64_div (f64_of_int (sint bytes)) (f64_of_int (sint totalBytes))"

text \<open>
  One \<^verbatim>\<open><rect>\<close> of the bar: the values the loop hands to \<^verbatim>\<open>Fprintf\<close>, which prints them
  as signed numbers.
\<close>

record segment =
  seg_x :: int64
  seg_width :: int64
  seg_fill :: string

text \<open>
  The loop over the bar. \<open>n\<close> is \<^verbatim>\<open>len(ranked)\<close>, \<open>i\<close> the index of the entry at the head
  of the list and \<open>accumX\<close> the variable of that name. \<^verbatim>\<open>segmentWidth\<close> and \<^verbatim>\<open>accumX\<close> are
  64-bit integers: their sums and differences wrap around.
\<close>

fun barLoop ::
  "(string \<Rightarrow> string) \<Rightarrow> int \<Rightarrow> int64 \<Rightarrow> langStat list \<Rightarrow> int \<Rightarrow> int64 \<Rightarrow> segment list"
where
  "barLoop uniLower n totalBytes [] i accumX = []"
| "barLoop uniLower n totalBytes (item # rest) i accumX =
     (let segmentWidth =
            int_of_f64 (f64_mul (f64_of_int barWidth) (share (Bytes item) totalBytes))
      in
        if segmentWidth = 0 then barLoop uniLower n totalBytes rest (i + 1) accumX
        else
          let segmentWidth =
                (if i = n - 1 then of_int barX + of_int barWidth - accumX else segmentWidth);
              color = colorForLanguage uniLower (Lang item) (colors ! nat (i smod int (length colors)))
          in \<lparr>seg_x = accumX, seg_width = segmentWidth, seg_fill = color\<rparr> #
             barLoop uniLower n totalBytes rest (i + 1) (accumX + segmentWidth))"

definition barSegments :: "(string \<Rightarrow> string) \<Rightarrow> langStat list \<Rightarrow> int64 \<Rightarrow> segment list" where
  "barSegments uniLower ranked totalBytes =
     barLoop uniLower (int (length ranked)) totalBytes ranked 0 (of_int barX)"

definition segmentRect :: "int \<Rightarrow> segment \<Rightarrow> string" where
  \<open>segmentRect barY seg =
     ''<rect x="'' @ fmt_d (sint (seg_x seg)) @ ''" y="'' @ fmt_d barY @
     ''" width="'' @ fmt_d (sint (seg_width seg)) @ ''" height="'' @ fmt_d barHeight @
     ''" fill="'' @ seg_fill seg @ ''" clip-path="url(#barClip)"/>'' @ newline\<close>

text \<open>One tile of the grid: the values the second loop hands to \<^verbatim>\<open>Fprintf\<close>.\<close>

record tile =
  tile_x :: int
  tile_y :: int
  tile_color :: string
  tile_name :: string
  tile_percent :: f64
  tile_bytes :: int64

fun tileLoop ::
  "(string \<Rightarrow> string) \<Rightarrow> int \<Rightarrow> int \<Rightarrow> int \<Rightarrow> int64 \<Rightarrow> langStat list \<Rightarrow> int \<Rightarrow> tile list"
where
  "tileLoop uniLower cols gridTop tileWidth totalBytes [] i = []"
| "tileLoop uniLower cols gridTop tileWidth totalBytes (item # rest) i =
     (let row = i sdiv cols;
          col = i smod cols;
          x = cardPadding + col * (tileWidth + tileGap);
          y = gridTop + row * (tileHeight + tileGap);
          color = colorForLanguage uniLower (Lang item) (colors ! nat (i smod int (length colors)));
          percent = f64_mul (share (Bytes item) totalBytes) (f64_of_int 100)
      in \<lparr>tile_x = x, tile_y = y, tile_color = color, tile_name = escapeText (Lang item),
           tile_percent = percent, tile_bytes = Bytes item\<rparr> #
         tileLoop uniLower cols gridTop tileWidth totalBytes rest (i + 1))"

definition tileText :: "int \<Rightarrow> tile \<Rightarrow> string" where
  \<open>tileText tileWidth t =
     (let x = tile_x t; y = tile_y t in
      ''<rect x="'' @ fmt_d x @ ''" y="'' @ fmt_d y @ ''" width="'' @ fmt_d tileWidth @
      ''" height="'' @ fmt_d tileHeight @
      ''" rx="12" fill="#1b2328" stroke="#2c3a42" stroke-width="1"/>'' @ newline @
      ''<rect x="'' @ fmt_d (x + 12) @ ''" y="'' @ fmt_d (y + 10) @
      ''" width="6" height="'' @ fmt_d (tileHeight - 20) @ ''" rx="3" fill="'' @
      tile_color t @ ''"/>'' @ newline @
      ''<text x="'' @ fmt_d (x + 28) @ ''" y="'' @ fmt_d (y + 28) @
      ''" font-family="Poppins, 'Segoe UI', Arial, sans-serif" font-size="16" fill="#d3dde3">'' @
      tile_name t @ ''</text>'' @ newline @
      ''<text x="'' @ fmt_d (x + 28) @ ''" y="'' @ fmt_d (y + 48) @
      ''" font-family="Poppins, 'Segoe UI', Arial, sans-serif" font-size="13" fill="#93a4ac">'' @
      fmt_2f (tile_percent t) @ ''%</text>'' @ newline @
      ''<text x="'' @ fmt_d (x + 28) @ ''" y="'' @ fmt_d (y + 64) @
      ''" font-family="Poppins, 'Segoe UI', Arial, sans-serif" font-size="12" fill="#6f848e">'' @
      fmt_d (sint (tile_bytes t)) @ '' bytes</text>'' @ newline)\<close>

text \<open>The three writes that precede the layout.\<close>

definition svgProlog :: string where
  \<open>svgProlog =
     ''<?xml version="1.0" encoding="UTF-8"?>'' @ newline @
     ''<svg xmlns="http://www.w3.org/2000/svg" width="'' @ fmt_d width @
     ''" height="'' @ fmt_d height @ ''">'' @ newline @
     ''<rect width="100%" height="100%" rx="14" fill="#202a2f" stroke="#324047" stroke-width="2"/>'' @
     newline\<close>

text \<open>Everything \<^verbatim>\<open>writeSVG\<close> writes to the buffer from the layout on.\<close>

definition svgBody :: "(string \<Rightarrow> string) \<Rightarrow> langStat list \<Rightarrow> string list \<Rightarrow> int64 \<Rightarrow> string" where
  \<open>svgBody uniLower ranked excluded totalBytes =
     (let cols = (if int (length ranked) < 3 then int (length ranked) else 3);
          rows = (int (length ranked) + cols - 1) sdiv cols;
          footerHeight = (if length excluded > 0 then 28 else 0);
          gridHeight = rows * tileHeight + (rows - 1) * tileGap;
          contentHeight =
            headerHeight + headerGap + barHeight + barGap + gridHeight + footerHeight;
          topOffset = (height - contentHeight) sdiv 2;
          topOffset = (if topOffset < cardPadding then cardPadding else topOffset);
          headerTextY = topOffset + 18;
          barY = topOffset + headerHeight + headerGap;
          gridTop = barY + barHeight + barGap;
          gridWidth = width - cardPadding * 2;
          tileWidth = (gridWidth - (cols - 1) * tileGap) sdiv cols
      in
        ''<text x="'' @ fmt_d cardPadding @ ''" y="'' @ fmt_d headerTextY @
        ''" font-family="Poppins, 'Segoe UI', Arial, sans-serif" font-size="20" fill="#9be36a">Most Used Languages</text>'' @
        newline @
        ''<rect x="'' @ fmt_d barX @ ''" y="'' @ fmt_d barY @ ''" width="'' @ fmt_d barWidth @
        ''" height="'' @ fmt_d barHeight @ ''" rx="7" fill="#1b2328"/>'' @ newline @
        ''<clipPath id="barClip"><rect x="'' @ fmt_d barX @ ''" y="'' @ fmt_d barY @
        ''" width="'' @ fmt_d barWidth @ ''" height="'' @ fmt_d barHeight @
        ''" rx="7"/></clipPath>'' @ newline @
        concat (map (segmentRect barY) (barSegments uniLower ranked totalBytes)) @
        concat (map (tileText tileWidth) (tileLoop uniLower cols gridTop tileWidth totalBytes ranked 0)) @
        (if length excluded > 0
         then
           let note = ''Excluded: '' @ strings_Join excluded '', '';
               noteY = gridTop + gridHeight + 20;
               noteY = (if noteY > height - 18 then height - 18 else noteY)
           in ''<text x="'' @ fmt_d cardPadding @ ''" y="'' @ fmt_d noteY @
              ''" font-family="Poppins, 'Segoe UI', Arial, sans-serif" font-size="12" fill="#93a4ac">'' @
              escapeText note @ ''</text>'' @ newline
         else []) @
        ''</svg>'' @ newline)\<close>

text \<open>
  The calls into the operating system, \<^verbatim>\<open>os.MkdirAll\<close>, \<^verbatim>\<open>os.WriteFile\<close> and
  \<^verbatim>\<open>filepath.Dir\<close>, are parameters of the model. \<open>'fs\<close> is the state of the file system;
  a call returns its error, if any, and the state it leaves.
\<close>

record 'fs os =
  os_MkdirAll :: "string \<Rightarrow> 'fs \<Rightarrow> error option \<times> 'fs"
  os_WriteFile :: "string \<Rightarrow> string \<Rightarrow> 'fs \<Rightarrow> error option \<times> 'fs"
  filepath_Dir :: "string \<Rightarrow> string"

text \<open>
  \<^verbatim>\<open>writeSVG\<close> returns its error and the file system it leaves. The second test of
  \<^verbatim>\<open>len(ranked) == 0\<close> stands where the source has it, after the first three writes to
  the buffer.
\<close>

definition writeSVG ::
  "(string \<Rightarrow> string) \<Rightarrow> 'fs os \<Rightarrow> string \<Rightarrow> langStat list \<Rightarrow> string \<Rightarrow> string list \<Rightarrow> 'fs \<Rightarrow> error option \<times> 'fs"
where
  "writeSVG uniLower os path ranked owner excluded fs =
     (if length ranked = 0 then (Some (Error ''no language data to chart''), fs)
      else
        let totalBytes = sumBytes ranked in
        if totalBytes = 0 then (Some (Error ''no language data to chart''), fs)
        else
          let buf = svgProlog in
          if length ranked = 0 then (Some (Error ''no language data to chart''), fs)
          else
            let buf = buf @ svgBody uniLower ranked excluded totalBytes;
                (err, fs') = os_MkdirAll os (filepath_Dir os path) fs
            in if err \<noteq> None \<and> filepath_Dir os path \<noteq> ''.'' then (err, fs')
               else os_WriteFile os path buf fs')"

subsection \<open>main\<close>

text \<open>
  The merged configuration. \<^verbatim>\<open>ShowOther\<close> is a pointer in the source; \<^verbatim>\<open>mergeConfig\<close>
  always sets it, and the model holds the value it points to.
\<close>

record config =
  Username :: string
  Token :: string
  Output :: string
  IncludeForks :: bool
  IncludeArchived :: bool
  Org :: bool
  ShowOther :: bool
  Exclude :: "string list"
  Top :: int

text \<open>The loop that drops forks and archived repositories unless they are asked for.\<close>

fun filterRepos :: "config \<Rightarrow> repo list \<Rightarrow> repo list" where
  "filterRepos merged [] = []"
| "filterRepos merged (r # rs) =
     (if \<not> IncludeForks merged \<and> Fork r then filterRepos merged rs
      else if \<not> IncludeArchived merged \<and> Archived r then filterRepos merged rs
      else r # filterRepos merged rs)"

text \<open>
  \<^verbatim>\<open>main\<close> from the point where the configuration is merged and the repositories are
  listed. \<^verbatim>\<open>exitWith\<close> ends the process with the message; the model returns the message
  as the error and the file system as it is at that moment. \<^verbatim>\<open>printTable\<close> writes to the
  standard output only and is left out.
\<close>

definition mainPipeline ::
  "(string \<Rightarrow> string) \<Rightarrow> 'fs os \<Rightarrow> (string \<Rightarrow> string \<Rightarrow> error + langMap) \<Rightarrow> config \<Rightarrow> repo list \<Rightarrow> 'fs \<Rightarrow>
   error option \<times> 'fs"
where
  "mainPipeline uniLower os getJSON merged repos fs =
     (let filtered = filterRepos merged repos in
      if length filtered = 0 then (Some (Error ''no repositories after filtering''), fs)
      else
        case fetchLanguages getJSON filtered (Token merged) of
          Inl err \<Rightarrow> (Some err, fs)
        | Inr totals \<Rightarrow>
            let (totals', excluded) = applyExcludes uniLower totals (Exclude merged);
                ranked = rankLanguages totals';
                ranked =
                  (if Top merged > 0 \<and> Top merged < int (length ranked)
                   then collapseOthers ranked (Top merged) (ShowOther merged)
                   else ranked)
            in writeSVG uniLower os (Output merged) ranked (Username merged) excluded fs)"

subsection \<open>Notions used in the statements\<close>

text \<open>What the language source answers for a repository; empty when it fails.\<close>

definition fetched ::
  "(string \<Rightarrow> string \<Rightarrow> error + langMap) \<Rightarrow> string \<Rightarrow> repo \<Rightarrow> langMap"
where
  "fetched getJSON token r =
     (case getJSON (languagesURL r) token of Inr langs \<Rightarrow> langs | Inl err \<Rightarrow> [])"

text \<open>
  A stand-in for the Unicode case mapping in concrete instances. Their strings are ASCII,
  so that it is never consulted (lemma \<open>toLower_ASCII\<close>).
\<close>

definition keepBytes :: "string \<Rightarrow> string" where
  "keepBytes s = s"

text \<open>A language source that knows two repositories, for concrete instances.\<close>

definition sampleSource :: "string \<Rightarrow> string \<Rightarrow> error + langMap" where
  "sampleSource url token =
     (if url = ''https://api.github.com/repos/o/a/languages''
      then Inr [(''Go'', 300), (''TeX'', 50)]
      else if url = ''https://api.github.com/repos/o/b/languages''
      then Inr [(''Go'', 5)]
      else Inl (Error ''request failed: 404 Not Found''))"

definition repoA :: repo where
  "repoA = \<lparr>Name = ''a'', FullName = ''o/a'', Fork = False, Archived = False\<rparr>"

definition repoB :: repo where
  "repoB = \<lparr>Name = ''b'', FullName = ''o/b'', Fork = False, Archived = False\<rparr>"

text \<open>
  The comparison of \<^verbatim>\<open>applyExcludes\<close>: a language name matches when it equals one of the
  exclude terms once both are in lower case. \<open>matchedTerm\<close> is the term reported for a
  matching name: the last term of the list that is equal to it in lower case.
\<close>

definition matchesExclude :: "(string \<Rightarrow> string) \<Rightarrow> string list \<Rightarrow> string \<Rightarrow> bool" where
  "matchesExclude uniLower excludes lang = (toLower uniLower lang \<in> toLower uniLower ` set excludes)"

definition matchedTerm :: "(string \<Rightarrow> string) \<Rightarrow> string list \<Rightarrow> string \<Rightarrow> string" where
  "matchedTerm uniLower excludes lang = last (filter (\<lambda>item. toLower uniLower item = toLower uniLower lang) excludes)"

text \<open>
  The escaped equivalent of a byte, and the five entities that \<^verbatim>\<open>escapeText\<close> can
  produce.
\<close>

definition escapedEquivalent :: "char \<Rightarrow> string" where
  "escapedEquivalent c =
     (if c = CHR ''&'' then ''&amp;''
      else if c = CHR ''<'' then ''&lt;''
      else if c = CHR ''>'' then ''&gt;''
      else if c = CHR 0x22 then ''&quot;''
      else if c = CHR 0x27 then ''&apos;''
      else [c])"

definition entities :: "string list" where
  "entities = [''&amp;'', ''&lt;'', ''&gt;'', ''&quot;'', ''&apos;'']"

text \<open>
  The two-tier colour of the entry at a rank position: the table entry for the name in
  lower case, else the palette colour at the position modulo the palette's length.
\<close>

definition resolveColor :: "(string \<Rightarrow> string) \<Rightarrow> string \<Rightarrow> nat \<Rightarrow> string" where
  "resolveColor uniLower lang position =
     (case map_of languageColors (toLower uniLower lang) of
        Some color \<Rightarrow> color
      | None \<Rightarrow> colors ! (position mod length colors))"

text \<open>The width the bar loop first computes for an entry, before the last-entry rule.\<close>

definition computedWidth :: "int64 \<Rightarrow> int64 \<Rightarrow> int64" where
  "computedWidth bytes totalBytes =
     int_of_f64 (f64_mul (f64_of_int barWidth) (share bytes totalBytes))"

text \<open>
  An operating system for concrete instances: files in memory, every call succeeds, and
  every path lies in the current directory.
\<close>

definition memOS :: "(string \<Rightarrow> string option) os" where
  "memOS =
     \<lparr>os_MkdirAll = (\<lambda>dir fs. (None, fs)),
      os_WriteFile = (\<lambda>path content fs. (None, fs(path \<mapsto> content))),
      filepath_Dir = (\<lambda>path. ''.'')\<rparr>"

definition sampleConfig :: config where
  "sampleConfig =
     \<lparr>Username = ''o'', Token = ''tok'', Output = ''lang-rank.svg'', IncludeForks = False,
      IncludeArchived = False, Org = False, ShowOther = True, Exclude = [], Top = 0\<rparr>"

text \<open>The sum of the byte counts as integers, without wrap-around.\<close>

definition intSum :: "langStat list \<Rightarrow> int" where
  "intSum items = sum_list (map (\<lambda>item. sint (Bytes item)) items)"

text \<open>Segments that follow one another without a gap, the first starting at \<open>x\<close>.\<close>

fun contiguous :: "int64 \<Rightarrow> segment list \<Rightarrow> bool" where
  "contiguous x [] = True"
| "contiguous x (s # ss) = (seg_x s = x \<and> contiguous (x + seg_width s) ss)"

subsection \<open>Sums of byte counts\<close>

lemma fold_add_bytes:
  "fold (\<lambda>item acc. acc + Bytes item) items a = a + sum_list (map Bytes items)"
  by (induction items arbitrary: a) (simp_all add: add.assoc)

lemma sumBytes_sum_list: "sumBytes items = sum_list (map Bytes items)"
  by (simp add: sumBytes_def fold_add_bytes)




text \<open>
  The \<^verbatim>\<open>int64\<close> sum is the integer sum taken modulo \<open>2\<^sup>6\<^sup>4\<close>; the two agree when the
  integer sum is not negative and below \<open>2\<^sup>6\<^sup>3\<close>.
\<close>

lemma sumBytes_intSum: "sumBytes items = word_of_int (intSum items)"
  by (induction items) (simp_all add: sumBytes_sum_list intSum_def)

lemma intSum_zero: "intSum items = 0 \<Longrightarrow> sumBytes items = 0"
  by (simp add: sumBytes_intSum)

lemma intSum_append: "intSum (xs @ ys) = intSum xs + intSum ys"
  by (simp add: intSum_def)

lemma intSum_nonneg: "\<forall>item \<in> set items. 0 \<le> sint (Bytes item) \<Longrightarrow> 0 \<le> intSum items"
  by (induction items) (simp_all add: intSum_def)

lemma sint_sumBytes:
  assumes "0 \<le> intSum items" "intSum items < 2 ^ 63"
  shows "sint (sumBytes items) = intSum items"
proof -
  have "sint (word_of_int (intSum items) :: int64) = intSum items"
    using assms by (simp add: sint_sbintrunc' signed_take_bit_int_eq_self)
  then show ?thesis by (simp add: sumBytes_intSum)
qed



subsection \<open>collapseOthers: the bucket of the remaining languages\<close>

lemma collapseOthers_pass:
  "topN \<le> 0 \<or> int (length ranked) \<le> topN \<Longrightarrow> collapseOthers ranked topN showOther = ranked"
  by (simp add: collapseOthers_def)

lemma collapseOthers_cut:
  "0 < topN \<Longrightarrow> topN < int (length ranked) \<Longrightarrow>
   collapseOthers ranked topN showOther =
     take (nat topN) ranked @
     (if showOther \<and> 0 < sint (sumBytes (drop (nat topN) ranked))
      then [\<lparr>Lang = ''Other'', Bytes = sumBytes (drop (nat topN) ranked)\<rparr>]
      else [])"
  by (simp add: collapseOthers_def Let_def)

lemma collapseOthers_scenario:
  "collapseOthers
     [\<lparr>Lang = ''Go'', Bytes = 300\<rparr>, \<lparr>Lang = ''Python'', Bytes = 100\<rparr>,
      \<lparr>Lang = ''TeX'', Bytes = 50\<rparr>, \<lparr>Lang = ''HTML'', Bytes = 10\<rparr>] 2 True =
     [\<lparr>Lang = ''Go'', Bytes = 300\<rparr>, \<lparr>Lang = ''Python'', Bytes = 100\<rparr>,
      \<lparr>Lang = ''Other'', Bytes = 60\<rparr>]"
  by (simp add: collapseOthers_def sumBytes_def)

text \<open>
  C3 as the claim words it does not hold. Three entries of \<open>2\<^sup>6\<^sup>2\<close> bytes each, \<open>top = 1\<close>
  and the show-other flag set: the bytes beyond position 1 add up to \<open>2\<^sup>6\<^sup>3\<close>, which the
  \<^verbatim>\<open>int64\<close> sum holds as \<open>-2\<^sup>6\<^sup>3\<close>. The remainder is not zero, and yet the result is the
  first entry alone, because the code appends the entry only when \<^verbatim>\<open>otherBytes > 0\<close>.
\<close>

theorem collapseOthers_no_other_counterexample:
  "sumBytes
     (drop 1
       [\<lparr>Lang = ''A'', Bytes = 4611686018427387904\<rparr>,
        \<lparr>Lang = ''B'', Bytes = 4611686018427387904\<rparr>,
        \<lparr>Lang = ''C'', Bytes = 4611686018427387904\<rparr>]) \<noteq> 0 \<and>
   collapseOthers
     [\<lparr>Lang = ''A'', Bytes = 4611686018427387904\<rparr>,
      \<lparr>Lang = ''B'', Bytes = 4611686018427387904\<rparr>,
      \<lparr>Lang = ''C'', Bytes = 4611686018427387904\<rparr>] 1 True =
     [\<lparr>Lang = ''A'', Bytes = 4611686018427387904\<rparr>]"
  by (simp add: collapseOthers_def sumBytes_def)

text \<open>
  C3, amended: when \<open>top\<close> is positive and less than the length, the result is the first
  \<open>top\<close> entries, followed, if the show-other flag is set and the \<^verbatim>\<open>int64\<close> sum of the
  bytes beyond position \<open>top\<close> is greater than zero, by one entry named "Other" that
  carries that sum, and by nothing otherwise; in every other case the sequence is
  returned as it is. The scenario of the claim is the second conjunct.
\<close>

theorem collapseOthers_contract:
  "collapseOthers ranked topN showOther =
     (if 0 < topN \<and> topN < int (length ranked)
      then take (nat topN) ranked @
           (if showOther \<and> 0 < sint (sum_list (map Bytes (drop (nat topN) ranked)))
            then [\<lparr>Lang = ''Other'', Bytes = sum_list (map Bytes (drop (nat topN) ranked))\<rparr>]
            else [])
      else ranked) \<and>
   collapseOthers
     [\<lparr>Lang = ''Go'', Bytes = 300\<rparr>, \<lparr>Lang = ''Python'', Bytes = 100\<rparr>,
      \<lparr>Lang = ''TeX'', Bytes = 50\<rparr>, \<lparr>Lang = ''HTML'', Bytes = 10\<rparr>] 2 True =
     [\<lparr>Lang = ''Go'', Bytes = 300\<rparr>, \<lparr>Lang = ''Python'', Bytes = 100\<rparr>,
      \<lparr>Lang = ''Other'', Bytes = 60\<rparr>]"
proof (intro conjI)
  show "collapseOthers ranked topN showOther =
     (if 0 < topN \<and> topN < int (length ranked)
      then take (nat topN) ranked @
           (if showOther \<and> 0 < sint (sum_list (map Bytes (drop (nat topN) ranked)))
            then [\<lparr>Lang = ''Other'', Bytes = sum_list (map Bytes (drop (nat topN) ranked))\<rparr>]
            else [])
      else ranked)"
  proof (cases "0 < topN \<and> topN < int (length ranked)")
    case True
    then show ?thesis
      using collapseOthers_cut [of topN ranked showOther] by (simp add: sumBytes_sum_list)
  next
    case False
    then have "topN \<le> 0 \<or> int (length ranked) \<le> topN" by linarith
    then have "collapseOthers ranked topN showOther = ranked" by (rule collapseOthers_pass)
    then show ?thesis using False by (simp only: if_False)
  qed
qed (rule collapseOthers_scenario)

theorem collapseOthers_contract_witness:
  "collapseOthers
     [\<lparr>Lang = ''Go'', Bytes = 300\<rparr>, \<lparr>Lang = ''TeX'', Bytes = 0\<rparr>,
      \<lparr>Lang = ''Vue'', Bytes = 0\<rparr>] 1 True = [\<lparr>Lang = ''Go'', Bytes = 300\<rparr>] \<and>
   collapseOthers [\<lparr>Lang = ''Go'', Bytes = 300\<rparr>, \<lparr>Lang = ''TeX'', Bytes = 50\<rparr>] 1 False =
     [\<lparr>Lang = ''Go'', Bytes = 300\<rparr>] \<and>
   collapseOthers [\<lparr>Lang = ''Go'', Bytes = 300\<rparr>, \<lparr>Lang = ''TeX'', Bytes = 50\<rparr>] 2 True =
     [\<lparr>Lang = ''Go'', Bytes = 300\<rparr>, \<lparr>Lang = ''TeX'', Bytes = 50\<rparr>]"
  using
    collapseOthers_contract
      [of "[\<lparr>Lang = ''Go'', Bytes = 300\<rparr>, \<lparr>Lang = ''TeX'', Bytes = 0\<rparr>,
            \<lparr>Lang = ''Vue'', Bytes = 0\<rparr>]" 1 True]
    collapseOthers_contract
      [of "[\<lparr>Lang = ''Go'', Bytes = 300\<rparr>, \<lparr>Lang = ''TeX'', Bytes = 50\<rparr>]" 1 False]
    collapseOthers_contract
      [of "[\<lparr>Lang = ''Go'', Bytes = 300\<rparr>, \<lparr>Lang = ''TeX'', Bytes = 50\<rparr>]" 2 True]
  by simp

text \<open>
  On byte counts that are not negative and add up to less than \<open>2\<^sup>6\<^sup>3\<close> the guard
  \<^verbatim>\<open>otherBytes > 0\<close> is the test that the remainder, as an integer, is not zero.
\<close>

lemma collapseOthers_in_range:
  assumes "0 < topN" and "topN < int (length ranked)"
    and "\<forall>item \<in> set ranked. 0 \<le> sint (Bytes item)" and "intSum ranked < 2 ^ 63"
  shows "collapseOthers ranked topN True =
           take (nat topN) ranked @
           (if intSum (drop (nat topN) ranked) = 0 then []
            else [\<lparr>Lang = ''Other'',
                   Bytes = word_of_int (intSum (drop (nat topN) ranked))\<rparr>])"
proof -
  let ?rest = "drop (nat topN) ranked"
  have nn: "0 \<le> intSum ?rest" "0 \<le> intSum (take (nat topN) ranked)"
    using assms(3) by (auto intro!: intSum_nonneg dest: in_set_takeD in_set_dropD)
  have "intSum (take (nat topN) ranked) + intSum ?rest = intSum ranked"
    using intSum_append [of "take (nat topN) ranked" ?rest] by simp
  then have "intSum ?rest < 2 ^ 63" using nn assms(4) by linarith
  from sint_sumBytes [OF nn(1) this] have "sint (sumBytes ?rest) = intSum ?rest" .
  then show ?thesis
    using nn(1) collapseOthers_cut [OF assms(1,2), of True]
    by (simp add: sumBytes_intSum)
qed




subsection \<open>rankLanguages: a strict total order\<close>

lemma rankLess_irrefl: "\<not> rankLess a a"
  by (simp add: rankLess_def)

lemma rankLess_trans: "rankLess a b \<Longrightarrow> rankLess b c \<Longrightarrow> rankLess a c"
  by (auto simp: rankLess_def split: if_splits)

lemma rankLess_asym: "rankLess a b \<Longrightarrow> \<not> rankLess b a"
  using rankLess_trans [of a b a] rankLess_irrefl [of a] by blast

lemma rankLess_total: "(a :: langStat) \<noteq> b \<Longrightarrow> rankLess a b \<or> rankLess b a"
proof -
  assume ne: "a \<noteq> b"
  show ?thesis
  proof (cases "Bytes a = Bytes b")
    case True
    with ne have "Lang a \<noteq> Lang b" by (auto intro: langStat.equality)
    with True show ?thesis by (auto simp: rankLess_def)
  next
    case False
    then have "sint (Bytes a) \<noteq> sint (Bytes b)" using signed_word_eqI by blast
    with False show ?thesis by (auto simp: rankLess_def)
  qed
qed

lemma mset_insertBy: "mset (insertBy lessFn x ys) = add_mset x (mset ys)"
  by (induction ys) simp_all

lemma mset_sort_Slice: "mset (sort_Slice lessFn xs) = mset xs"
  by (induction xs) (simp_all add: sort_Slice_def mset_insertBy)

lemma set_insertBy: "set (insertBy lessFn x ys) = insert x (set ys)"
  using mset_insertBy [of lessFn x ys] by (metis set_mset_add_mset_insert set_mset_mset)

lemma sorted_insertBy_rankLess:
  "sorted_wrt rankLess ys \<Longrightarrow> x \<notin> set ys \<Longrightarrow> sorted_wrt rankLess (insertBy rankLess x ys)"
proof (induction ys)
  case Nil
  then show ?case by simp
next
  case (Cons y ys)
  show ?case
  proof (cases "rankLess y x")
    case True
    with Cons show ?thesis by (auto simp: set_insertBy)
  next
    case False
    from Cons.prems(2) have "x \<noteq> y" by auto
    with False have xy: "rankLess x y" using rankLess_total by blast
    then have "\<forall>z \<in> set ys. rankLess x z" using Cons.prems(1) by (auto intro: rankLess_trans)
    with xy False Cons.prems(1) show ?thesis by simp
  qed
qed

lemma sorted_sort_Slice_rankLess:
  "distinct xs \<Longrightarrow> sorted_wrt rankLess (sort_Slice rankLess xs)"
proof (induction xs)
  case Nil
  then show ?case by (simp add: sort_Slice_def)
next
  case (Cons x xs)
  then have "sorted_wrt rankLess (sort_Slice rankLess xs)" by simp
  moreover have "x \<notin> set (sort_Slice rankLess xs)"
    using Cons.prems mset_sort_Slice [of rankLess xs] by (metis distinct.simps(2) set_mset_mset)
  ultimately have "sorted_wrt rankLess (insertBy rankLess x (sort_Slice rankLess xs))"
    by (rule sorted_insertBy_rankLess)
  then show ?case by (simp add: sort_Slice_def)
qed

lemma sorted_by_unique:
  "sorted_wrt rankLess xs \<Longrightarrow> sorted_wrt rankLess ys \<Longrightarrow> set xs = set ys \<Longrightarrow> xs = ys"
proof (induction xs arbitrary: ys)
  case Nil
  then show ?case by simp
next
  case (Cons x xs)
  then obtain y ys' where ys: "ys = y # ys'" by (cases ys) auto
  have sx: "\<forall>z \<in> set xs. rankLess x z" and sy: "\<forall>z \<in> set ys'. rankLess y z"
    using Cons.prems ys by auto
  have "x = y"
  proof (rule ccontr)
    assume ne: "x \<noteq> y"
    have "x \<in> set ys'" using Cons.prems(3) ys ne by auto
    then have "rankLess y x" using sy by blast
    moreover have "y \<in> set xs" using Cons.prems(3) ys ne by auto
    then have "rankLess x y" using sx by blast
    ultimately show False using rankLess_asym by blast
  qed
  moreover have "x \<notin> set xs" using sx rankLess_irrefl by blast
  moreover have "y \<notin> set ys'" using sy rankLess_irrefl by blast
  ultimately have "set xs = set ys'" using Cons.prems(3) ys by auto
  then have "xs = ys'" using Cons.IH [of ys'] Cons.prems ys by simp
  with \<open>x = y\<close> ys show ?case by simp
qed

lemma inj_toStat: "inj_on toStat A"
  by (auto simp: inj_on_def toStat_def)

lemma neighbours:
  "sorted_wrt rankLess r \<Longrightarrow> Suc i < length r \<Longrightarrow>
   sint (Bytes (r ! Suc i)) \<le> sint (Bytes (r ! i)) \<and>
   (Bytes (r ! i) = Bytes (r ! Suc i) \<longrightarrow> Lang (r ! i) < Lang (r ! Suc i))"
proof -
  assume "sorted_wrt rankLess r" "Suc i < length r"
  then have "rankLess (r ! i) (r ! Suc i)" by (simp add: sorted_wrt_iff_nth_less)
  then show ?thesis by (auto simp: rankLess_def split: if_splits)
qed

text \<open>
  C1: for every map, in whatever order its entries are visited, the result is strictly
  ordered by "more bytes first, then the smaller name first"; so neighbours never grow in
  bytes, and neighbours of equal bytes ascend in name. The result is a permutation of the
  entries, and two visiting orders of the same map give the same sequence. Bytes compare
  as signed 64-bit integers, names as byte strings. The last conjunct frees the statement
  from the sorting algorithm: every permutation of the entries that is ordered in this way
  is the result.
\<close>

theorem rankLanguages_strict_total_order:
  assumes "distinct (map fst totals)"
  shows "sorted_wrt (\<lambda>a b. sint (Bytes b) < sint (Bytes a) \<or>
                          (Bytes a = Bytes b \<and> Lang a < Lang b)) (rankLanguages totals) \<and>
         (\<forall>i. Suc i < length (rankLanguages totals) \<longrightarrow>
            sint (Bytes (rankLanguages totals ! Suc i)) \<le> sint (Bytes (rankLanguages totals ! i)) \<and>
            (Bytes (rankLanguages totals ! i) = Bytes (rankLanguages totals ! Suc i) \<longrightarrow>
             Lang (rankLanguages totals ! i) < Lang (rankLanguages totals ! Suc i))) \<and>
         mset (rankLanguages totals) =
           mset (map toStat totals) \<and>
         (\<forall>totals'. distinct (map fst totals') \<and> map_of totals' = map_of totals \<longrightarrow>
            rankLanguages totals' = rankLanguages totals) \<and>
         (\<forall>stats. mset stats = mset (map toStat totals) \<and>
            sorted_wrt (\<lambda>a b. sint (Bytes b) < sint (Bytes a) \<or>
                          (Bytes a = Bytes b \<and> Lang a < Lang b)) stats \<longrightarrow>
            stats = rankLanguages totals)"
proof -
  have d: "distinct totals" using assms by (rule distinct_map [THEN iffD1, THEN conjunct1])
  have ds: "distinct (map toStat totals)"
    using d inj_toStat by (simp add: distinct_map)
  have s: "sorted_wrt rankLess (rankLanguages totals)"
    unfolding rankLanguages_def using ds by (rule sorted_sort_Slice_rankLess)
  have eq: "rankLess = (\<lambda>a b. sint (Bytes b) < sint (Bytes a) \<or>
                          (Bytes a = Bytes b \<and> Lang a < Lang b))"
    by (auto simp: rankLess_def fun_eq_iff)
  have m: "mset (rankLanguages totals) =
           mset (map toStat totals)"
    by (simp add: rankLanguages_def mset_sort_Slice)
  have u: "rankLanguages totals' = rankLanguages totals"
    if "distinct (map fst totals')" "map_of totals' = map_of totals" for totals'
  proof -
    have "set totals' = set totals"
      using that assms by (simp add: map_of_inject_set)
    then have st: "set (rankLanguages totals') = set (rankLanguages totals)"
      unfolding rankLanguages_def
      by (metis mset_sort_Slice set_mset_mset set_map)
    have d': "distinct totals'" using that(1) by (rule distinct_map [THEN iffD1, THEN conjunct1])
    have "distinct (map toStat totals')"
      using d' inj_toStat by (simp add: distinct_map)
    then have "sorted_wrt rankLess (rankLanguages totals')"
      unfolding rankLanguages_def by (rule sorted_sort_Slice_rankLess)
    from sorted_by_unique [OF this s st] show ?thesis .
  qed
  have a: "stats = rankLanguages totals"
    if "mset stats = mset (map toStat totals)" "sorted_wrt rankLess stats" for stats
  proof -
    have "mset stats = mset (rankLanguages totals)" using that(1) m by simp
    then have "set stats = set (rankLanguages totals)" by (rule mset_eq_setD)
    from sorted_by_unique [OF that(2) s this] show ?thesis .
  qed
  show ?thesis using s neighbours [OF s] m u a unfolding eq by blast
qed

theorem rankLanguages_strict_total_order_witness:
  "rankLanguages [(''TeX'', 50), (''Go'', 300), (''C'', 50)] =
     [\<lparr>Lang = ''Go'', Bytes = 300\<rparr>, \<lparr>Lang = ''C'', Bytes = 50\<rparr>, \<lparr>Lang = ''TeX'', Bytes = 50\<rparr>] \<and>
   rankLanguages [(''C'', 50), (''TeX'', 50), (''Go'', 300)] =
     rankLanguages [(''TeX'', 50), (''Go'', 300), (''C'', 50)] \<and>
   sorted_wrt (\<lambda>a b. sint (Bytes b) < sint (Bytes a) \<or> (Bytes a = Bytes b \<and> Lang a < Lang b))
     (rankLanguages [(''TeX'', 50), (''Go'', 300), (''C'', 50)])"
proof -
  let ?t = "[(''TeX'', 50), (''Go'', 300), (''C'', 50)] :: langMap"
  let ?t' = "[(''C'', 50), (''TeX'', 50), (''Go'', 300)] :: langMap"
  have d: "distinct (map fst ?t)" by simp
  have d': "distinct (map fst ?t')" by simp
  have "set ?t' = set ?t" by auto
  then have m: "map_of ?t' = map_of ?t" using d d' by (simp only: map_of_inject_set)
  have v: "rankLanguages ?t =
     [\<lparr>Lang = ''Go'', Bytes = 300\<rparr>, \<lparr>Lang = ''C'', Bytes = 50\<rparr>, \<lparr>Lang = ''TeX'', Bytes = 50\<rparr>]"
    by (simp add: rankLanguages_def sort_Slice_def toStat_def rankLess_def)
  from rankLanguages_strict_total_order [OF d] d' m v show ?thesis by blast
qed


subsection \<open>fetchLanguages: the order of the repositories\<close>

lemma mapIndex_update:
  "mapIndex (AList.update l v totals) k = (if k = l then v else mapIndex totals k)"
  by (simp add: mapIndex_def update_conv')

lemma map_of_addLangs:
  "map_of (addLangs xs totals) k =
     (if k \<in> fst ` set xs \<or> k \<in> dom (map_of totals)
      then Some (mapIndex totals k + sum_list (map snd (filter (\<lambda>p. fst p = k) xs)))
      else None)"
proof (induction xs arbitrary: totals)
  case Nil
  then show ?case by (auto simp: mapIndex_def)
next
  case (Cons p xs)
  obtain l b where p: "p = (l, b)" by (cases p)
  let ?t = "AList.update l (mapIndex totals l + b) totals"
  have m: "map_of ?t = (map_of totals)(l \<mapsto> mapIndex totals l + b)"
    by (rule update_conv')
  have d: "k \<in> dom (map_of ?t) \<longleftrightarrow> k = l \<or> k \<in> dom (map_of totals)"
    unfolding m by auto
  have "map_of (addLangs (p # xs) totals) k = map_of (addLangs xs ?t) k"
    by (simp add: p)
  also have "\<dots> =
     (if k \<in> fst ` set xs \<or> k \<in> dom (map_of ?t)
      then Some (mapIndex ?t k + sum_list (map snd (filter (\<lambda>p. fst p = k) xs)))
      else None)"
    by (rule Cons.IH)
  also have "\<dots> =
     (if k \<in> fst ` set (p # xs) \<or> k \<in> dom (map_of totals)
      then Some (mapIndex totals k + sum_list (map snd (filter (\<lambda>p. fst p = k) (p # xs))))
      else None)"
    unfolding d by (cases "k = l") (auto simp: p mapIndex_update add.assoc)
  finally show ?case .
qed

lemma sum_filter_mset:
  "sum_list (map snd (filter P xs)) = sum_mset (image_mset snd (filter_mset P (mset xs)))"
  by (metis mset_filter mset_map sum_mset_sum_list)

lemma map_of_addLangs_mset:
  assumes "mset xs = mset ys"
  shows "map_of (addLangs xs totals) = map_of (addLangs ys totals)"
proof
  fix k
  have "set xs = set ys" using assms by (rule mset_eq_setD)
  then show "map_of (addLangs xs totals) k = map_of (addLangs ys totals) k"
    by (simp add: map_of_addLangs sum_filter_mset assms)
qed

lemma distinct_addLangs:
  "distinct (map fst totals) \<Longrightarrow> distinct (map fst (addLangs xs totals))"
  by (induction xs arbitrary: totals) (auto simp: distinct_update)

lemma addLangs_append: "addLangs (xs @ ys) totals = addLangs ys (addLangs xs totals)"
  by (induction xs arbitrary: totals) auto

lemma fetchLoop_Inr:
  "fetchLoop getJSON token rs totals = Inr z \<Longrightarrow>
   (\<forall>r \<in> set rs. \<exists>langs. getJSON (languagesURL r) token = Inr langs) \<and>
   z = addLangs (concat (map (fetched getJSON token) rs)) totals"
proof (induction rs arbitrary: totals)
  case Nil
  then show ?case by simp
next
  case (Cons r rs)
  from Cons.prems obtain langs where l: "getJSON (languagesURL r) token = Inr langs"
    and rest: "fetchLoop getJSON token rs (addLangs langs totals) = Inr z"
    by (auto simp: Let_def split: sum.splits error.splits)
  from Cons.IH [OF rest] l show ?case
    by (simp add: fetched_def addLangs_append)
qed

lemma fetchLoop_all:
  "\<forall>r \<in> set rs. \<exists>langs. getJSON (languagesURL r) token = Inr langs \<Longrightarrow>
   fetchLoop getJSON token rs totals = Inr (addLangs (concat (map (fetched getJSON token) rs)) totals)"
proof (induction rs arbitrary: totals)
  case Nil
  then show ?case by simp
next
  case (Cons r rs)
  then obtain langs where l: "getJSON (languagesURL r) token = Inr langs" by auto
  with Cons show ?case by (simp add: fetched_def addLangs_append)
qed

lemma mset_concat_map:
  "mset rs' = mset rs \<Longrightarrow> mset (concat (map f rs')) = mset (concat (map f rs))"
proof -
  assume a: "mset rs' = mset rs"
  have "mset (concat (map f rs)) = sum_mset (image_mset (\<lambda>r. mset (f r)) (mset rs))" for rs
    by (induction rs) simp_all
  then show ?thesis using a by simp
qed

text \<open>
  C9: when the repositories are listed in another order (any permutation, repetitions
  included) and the aggregation of the first order succeeds with a mapping, the
  aggregation of the second order succeeds with the same mapping. The sums are \<^verbatim>\<open>int64\<close>
  sums, which commute also when they wrap around.
\<close>

theorem fetchLanguages_order_independent:
  assumes "mset repos' = mset repos"
    and "fetchLanguages getJSON repos token = Inr totals"
  shows "\<exists>totals'. fetchLanguages getJSON repos' token = Inr totals' \<and>
           map_of totals' = map_of totals"
proof -
  from fetchLoop_Inr [OF assms(2) [unfolded fetchLanguages_def]]
  have ok: "\<forall>r \<in> set repos. \<exists>langs. getJSON (languagesURL r) token = Inr langs"
    and t: "totals = addLangs (concat (map (fetched getJSON token) repos)) []" by auto
  have "set repos' = set repos" using assms(1) by (rule mset_eq_setD)
  with ok have "\<forall>r \<in> set repos'. \<exists>langs. getJSON (languagesURL r) token = Inr langs" by simp
  from fetchLoop_all [where getJSON = getJSON and token = token, OF this]
  have r: "fetchLanguages getJSON repos' token =
      Inr (addLangs (concat (map (fetched getJSON token) repos')) [])"
    by (simp add: fetchLanguages_def)
  have "map_of (addLangs (concat (map (fetched getJSON token) repos')) []) = map_of totals"
    unfolding t by (rule map_of_addLangs_mset) (rule mset_concat_map [OF assms(1)])
  with r show ?thesis by blast
qed

theorem fetchLanguages_order_independent_witness:
  "\<exists>totals'. fetchLanguages sampleSource [repoB, repoA] ''tok'' = Inr totals' \<and>
      map_of totals' = map_of [(''Go'', 305), (''TeX'', 50)]"
proof -
  have h1: "mset [repoB, repoA] = mset [repoA, repoB]" by simp
  have h2: "fetchLanguages sampleSource [repoA, repoB] ''tok'' = Inr [(''Go'', 305), (''TeX'', 50)]"
    by (simp add: fetchLanguages_def languagesURL_def sampleSource_def repoA_def repoB_def
        mapIndex_def)
  from fetchLanguages_order_independent [OF h1 h2] show ?thesis .
qed


subsection \<open>toLower\<close>

text \<open>On ASCII text the Unicode mapping is not consulted.\<close>

lemma toLower_ASCII: "isASCII s \<Longrightarrow> toLower uniLower s = map lowerByte s"
  by (simp add: toLower_def)

lemma toLower_Unicode: "\<not> isASCII s \<Longrightarrow> toLower uniLower s = uniLower s"
  by (simp add: toLower_def)

text \<open>
  Outside ASCII the functions follow the Unicode mapping. The capital E with an acute
  accent (the bytes \<^verbatim>\<open>C3 89\<close>) lowers to the small one (\<^verbatim>\<open>C3 A9\<close>), and the Kelvin sign
  (\<^verbatim>\<open>E2 84 AA\<close>) lowers to \<open>k\<close>: for a mapping that does so, the exclude term written with the
  small letter removes the entry written with the capital, and the name \<open>Kotlin\<close> written
  with the Kelvin sign gets the colour of Kotlin.
\<close>

lemma applyExcludes_Unicode:
  assumes "uniLower [CHR 0xC3, CHR 0x89] = [CHR 0xC3, CHR 0xA9]"
    and "uniLower [CHR 0xC3, CHR 0xA9] = [CHR 0xC3, CHR 0xA9]"
  shows "applyExcludes uniLower [([CHR 0xC3, CHR 0x89], 1), (''Go'', 2)] [[CHR 0xC3, CHR 0xA9]] =
           ([(''Go'', 2)], [[CHR 0xC3, CHR 0xA9]])"
proof -
  have n: "\<not> isASCII [CHR 0xC3, CHR 0x89]" "\<not> isASCII [CHR 0xC3, CHR 0xA9]"
    by (simp_all add: isASCII_def)
  have g: "toLower uniLower ''Go'' = ''go''" by code_simp
  show ?thesis
    by (simp add: applyExcludes_def normalizedExcludes_def sort_Strings_def
        toLower_Unicode [OF n(1)] toLower_Unicode [OF n(2)] assms g)
qed

lemma colorForLanguage_Unicode:
  assumes "uniLower ([CHR 0xE2, CHR 0x84, CHR 0xAA] @ ''otlin'') = ''kotlin''"
  shows "colorForLanguage uniLower ([CHR 0xE2, CHR 0x84, CHR 0xAA] @ ''otlin'') fallback =
           ''#A97BFF''"
proof -
  have "\<not> isASCII ([CHR 0xE2, CHR 0x84, CHR 0xAA] @ ''otlin'')"
    by (simp add: isASCII_def)
  from toLower_Unicode [OF this] assms show ?thesis
    by (simp add: colorForLanguage_def languageColors_def)
qed

subsection \<open>applyExcludes\<close>

lemma map_of_normalized_fold:
  "map_of (fold (\<lambda>item normalized. AList.update (toLower uniLower item) item normalized) excludes acc) k =
     (if k \<in> toLower uniLower ` set excludes
      then Some (last (filter (\<lambda>item. toLower uniLower item = k) excludes))
      else map_of acc k)"
proof (induction excludes arbitrary: acc)
  case Nil
  then show ?case by simp
next
  case (Cons x xs)
  show ?case
  proof (cases "k \<in> toLower uniLower ` set xs")
    case True
    then have "filter (\<lambda>item. toLower uniLower item = k) xs \<noteq> []"
      by (auto simp: filter_empty_conv)
    with True show ?thesis by (simp add: Cons.IH)
  next
    case False
    then have "filter (\<lambda>item. toLower uniLower item = k) xs = []"
      by (auto simp: filter_empty_conv)
    with False show ?thesis by (auto simp: Cons.IH update_conv')
  qed
qed

lemma map_of_normalizedExcludes:
  "map_of (normalizedExcludes uniLower excludes) (toLower uniLower lang) =
     (if matchesExclude uniLower excludes lang then Some (matchedTerm uniLower excludes lang) else None)"
  by (simp add: normalizedExcludes_def map_of_normalized_fold matchesExclude_def matchedTerm_def)

lemma excludeLoop_eq:
  "excludeLoop uniLower (normalizedExcludes uniLower excludes) visit (totals, removed) =
     (filter (\<lambda>entry. \<not> (fst entry \<in> fst ` set visit \<and> matchesExclude uniLower excludes (fst entry))) totals,
      removed @ map (\<lambda>entry. matchedTerm uniLower excludes (fst entry))
                  (filter (\<lambda>entry. matchesExclude uniLower excludes (fst entry)) visit))"
proof (induction visit arbitrary: totals removed)
  case Nil
  then show ?case by simp
next
  case (Cons p visit)
  obtain lang bytes where p: "p = (lang, bytes)" by (cases p)
  show ?case
  proof (cases "matchesExclude uniLower excludes lang")
    case True
    have "filter (\<lambda>entry. \<not> (fst entry \<in> fst ` set visit \<and> matchesExclude uniLower excludes (fst entry)))
            (AList.delete lang totals) =
          filter (\<lambda>entry. \<not> (fst entry \<in> fst ` set (p # visit) \<and> matchesExclude uniLower excludes (fst entry)))
            totals"
      using True by (auto simp: p AList.delete_eq case_prod_beta intro: filter_cong)
    with True show ?thesis
      by (simp add: p map_of_normalizedExcludes Cons.IH)
  next
    case False
    have "filter (\<lambda>entry. \<not> (fst entry \<in> fst ` set visit \<and> matchesExclude uniLower excludes (fst entry)))
            totals =
          filter (\<lambda>entry. \<not> (fst entry \<in> fst ` set (p # visit) \<and> matchesExclude uniLower excludes (fst entry)))
            totals"
      using False by (auto simp: p intro: filter_cong)
    with False show ?thesis
      by (simp add: p map_of_normalizedExcludes Cons.IH)
  qed
qed

lemma applyExcludes_eq:
  "applyExcludes uniLower totals excludes =
     (filter (\<lambda>entry. \<not> matchesExclude uniLower excludes (fst entry)) totals,
      sort (map (\<lambda>entry. matchedTerm uniLower excludes (fst entry))
              (filter (\<lambda>entry. matchesExclude uniLower excludes (fst entry)) totals)))"
proof (cases "excludes = []")
  case True
  then show ?thesis by (simp add: applyExcludes_def matchesExclude_def)
next
  case False
  have "filter (\<lambda>entry. \<not> (fst entry \<in> fst ` set totals \<and> matchesExclude uniLower excludes (fst entry))) totals =
        filter (\<lambda>entry. \<not> matchesExclude uniLower excludes (fst entry)) totals"
    by (auto intro: filter_cong)
  with False show ?thesis
    by (simp add: applyExcludes_def Let_def excludeLoop_eq sort_Strings_def)
qed

lemma map_of_filter_key:
  "map_of (filter (\<lambda>entry. P (fst entry)) xs) k = (if P k then map_of xs k else None)"
  by (induction xs) auto

lemma distinct_same_map_mset:
  assumes "distinct (map fst xs)" "distinct (map fst ys)" "map_of xs = map_of ys"
  shows "mset xs = mset ys"
proof -
  have "set xs = set ys" using assms by (simp add: map_of_inject_set)
  moreover have "distinct xs" "distinct ys"
    using assms(1,2) by (auto dest: distinct_map [THEN iffD1])
  ultimately show ?thesis by (simp add: set_eq_iff_mset_eq_distinct)
qed

text \<open>
  C5 as the claim words it does not hold: the list that is returned holds the exclude
  terms as the caller wrote them, not the names of the languages that were removed. With
  the aggregate \<open>{Go: 300, TeX: 50}\<close> and the exclude term \<open>tex\<close> the entry \<open>TeX\<close> is removed
  and the list returned is \<open>[tex]\<close>.
\<close>

theorem applyExcludes_reports_term_counterexample:
  "fst (applyExcludes keepBytes [(''Go'', 300), (''TeX'', 50)] [''tex'']) = [(''Go'', 300)] \<and>
   snd (applyExcludes keepBytes [(''Go'', 300), (''TeX'', 50)] [''tex'']) = [''tex''] \<and>
   snd (applyExcludes keepBytes [(''Go'', 300), (''TeX'', 50)] [''tex'']) \<noteq> [''TeX'']"
  by code_simp

text \<open>
  C5, amended: \<^verbatim>\<open>applyExcludes\<close> removes exactly the entries whose name matches an exclude
  term when both are put in lower case, and leaves the other entries as they are and in
  their order. It returns, for every entry it removed, the exclude term that matched it,
  as the caller wrote it (of several terms equal in lower case, the last one), the whole
  sorted in byte order; every element returned is one of the exclude terms, so a term
  that matches no entry is not reported, and there is no error result. The list returned
  and the mapping left do not depend on the order in which the aggregate is visited.
  Lower case is that of \<^verbatim>\<open>strings.ToLower\<close>; the statement holds whatever the Unicode case
  mapping is.
\<close>

theorem applyExcludes_contract:
  "fst (applyExcludes uniLower totals excludes) =
     filter (\<lambda>entry. \<not> matchesExclude uniLower excludes (fst entry)) totals \<and>
   (\<forall>lang. map_of (fst (applyExcludes uniLower totals excludes)) lang =
      (if matchesExclude uniLower excludes lang then None else map_of totals lang)) \<and>
   snd (applyExcludes uniLower totals excludes) =
     sort (map (\<lambda>entry. matchedTerm uniLower excludes (fst entry))
             (filter (\<lambda>entry. matchesExclude uniLower excludes (fst entry)) totals)) \<and>
   sorted (snd (applyExcludes uniLower totals excludes)) \<and>
   set (snd (applyExcludes uniLower totals excludes)) \<subseteq> set excludes \<and>
   (\<forall>totals'. distinct (map fst totals) \<and> distinct (map fst totals') \<and>
       map_of totals' = map_of totals \<longrightarrow>
       snd (applyExcludes uniLower totals' excludes) = snd (applyExcludes uniLower totals excludes) \<and>
       map_of (fst (applyExcludes uniLower totals' excludes)) = map_of (fst (applyExcludes uniLower totals excludes)))"
proof -
  let ?m = "\<lambda>entry. matchesExclude uniLower excludes (fst entry)"
  let ?t = "\<lambda>entry. matchedTerm uniLower excludes (fst entry)"
  have f: "fst (applyExcludes uniLower totals excludes) = filter (\<lambda>entry. \<not> ?m entry) totals" for totals
    by (simp add: applyExcludes_eq)
  have s: "snd (applyExcludes uniLower totals excludes) = sort (map ?t (filter ?m totals))" for totals
    by (simp add: applyExcludes_eq)
  have m: "map_of (fst (applyExcludes uniLower totals excludes)) lang =
      (if matchesExclude uniLower excludes lang then None else map_of totals lang)" for lang totals
    unfolding f using map_of_filter_key [of "\<lambda>k. \<not> matchesExclude uniLower excludes k" totals lang]
    by simp
  have sub: "set (snd (applyExcludes uniLower totals excludes)) \<subseteq> set excludes"
  proof
    fix x assume "x \<in> set (snd (applyExcludes uniLower totals excludes))"
    then obtain entry where "?m entry" "x = ?t entry" by (auto simp: s)
    then have "filter (\<lambda>item. toLower uniLower item = toLower uniLower (fst entry)) excludes \<noteq> []"
      by (auto simp: matchesExclude_def filter_empty_conv)
    then have "last (filter (\<lambda>item. toLower uniLower item = toLower uniLower (fst entry)) excludes)
        \<in> set (filter (\<lambda>item. toLower uniLower item = toLower uniLower (fst entry)) excludes)"
      by (rule last_in_set)
    then show "x \<in> set excludes" using \<open>x = ?t entry\<close> by (simp add: matchedTerm_def)
  qed
  have o: "snd (applyExcludes uniLower totals' excludes) = snd (applyExcludes uniLower totals excludes) \<and>
       map_of (fst (applyExcludes uniLower totals' excludes)) = map_of (fst (applyExcludes uniLower totals excludes))"
    if "distinct (map fst totals)" "distinct (map fst totals')" "map_of totals' = map_of totals"
    for totals'
  proof -
    have "mset totals' = mset totals" using that by (intro distinct_same_map_mset) simp_all
    then have "mset (map ?t (filter ?m totals')) = mset (map ?t (filter ?m totals))"
      by simp
    then have "sort (map ?t (filter ?m totals')) = sort (map ?t (filter ?m totals))"
      by (metis sorted_list_of_multiset_mset)
    moreover have "map_of (fst (applyExcludes uniLower totals' excludes)) =
        map_of (fst (applyExcludes uniLower totals excludes))"
      by (rule ext) (simp add: m that(3))
    ultimately show ?thesis by (simp add: s)
  qed
  have srt: "sorted (snd (applyExcludes uniLower totals excludes))" unfolding s by simp
  show ?thesis
  proof (intro conjI allI impI)
    show "fst (applyExcludes uniLower totals excludes) = filter (\<lambda>entry. \<not> ?m entry) totals"
      by (rule f)
    show "snd (applyExcludes uniLower totals excludes) = sort (map ?t (filter ?m totals))"
      by (rule s)
    show "sorted (snd (applyExcludes uniLower totals excludes))" by (rule srt)
    show "set (snd (applyExcludes uniLower totals excludes)) \<subseteq> set excludes" by (rule sub)
  qed (use m o in blast)+
qed

theorem applyExcludes_contract_witness:
  "applyExcludes keepBytes [(''Go'', 300), (''TeX'', 50)] [''TeX'', ''Rust''] = ([(''Go'', 300)], [''TeX'']) \<and>
   snd (applyExcludes keepBytes [(''TeX'', 50), (''Go'', 300)] [''TeX'', ''Rust'']) = [''TeX'']"
proof -
  let ?t = "[(''Go'', 300), (''TeX'', 50)] :: langMap"
  let ?t' = "[(''TeX'', 50), (''Go'', 300)] :: langMap"
  let ?e = "[''TeX'', ''Rust'']"
  have a: "filter (\<lambda>entry. \<not> matchesExclude keepBytes ?e (fst entry)) ?t = [(''Go'', 300)]"
    by code_simp
  have b: "sort (map (\<lambda>entry. matchedTerm keepBytes ?e (fst entry))
              (filter (\<lambda>entry. matchesExclude keepBytes ?e (fst entry)) ?t)) = [''TeX'']"
    by code_simp
  have d: "distinct (map fst ?t)" "distinct (map fst ?t')" by simp_all
  have "set ?t' = set ?t" by auto
  then have m: "map_of ?t' = map_of ?t" using d by (simp only: map_of_inject_set)
  note c = applyExcludes_contract [of keepBytes ?t ?e]
  from c have "fst (applyExcludes keepBytes ?t ?e) = [(''Go'', 300)]" unfolding a by blast
  moreover from c have s: "snd (applyExcludes keepBytes ?t ?e) = [''TeX'']" unfolding b by blast
  moreover from c d m have "snd (applyExcludes keepBytes ?t' ?e) = snd (applyExcludes keepBytes ?t ?e)" by blast
  ultimately show ?thesis by (simp add: prod_eq_iff)
qed


subsection \<open>escapeText\<close>

lemma escapeText_Nil: "escapeText [] = []"
  by (simp add: escapeText_def)

lemma escapeText_Cons: "escapeText (c # cs) = escapedEquivalent c @ escapeText cs"
  by (simp add: escapeText_def escapedEquivalent_def)

lemma escapeText_concat: "escapeText input = concat (map escapedEquivalent input)"
  by (induction input) (simp_all add: escapeText_Nil escapeText_Cons)

lemma escapedEquivalent_no_raw:
  "CHR ''<'' \<notin> set (escapedEquivalent c) \<and> CHR ''>'' \<notin> set (escapedEquivalent c) \<and>
   CHR 0x22 \<notin> set (escapedEquivalent c) \<and> CHR 0x27 \<notin> set (escapedEquivalent c)"
  by (simp add: escapedEquivalent_def)

lemma escapedEquivalent_amp:
  "i < length (escapedEquivalent c) \<Longrightarrow> escapedEquivalent c ! i = CHR ''&'' \<Longrightarrow>
   i = 0 \<and> escapedEquivalent c \<in> set entities"
  by (auto simp: escapedEquivalent_def entities_def nth_Cons less_Suc_eq_0_disj
      split: if_splits nat.splits)

lemma escapeText_amp:
  "i < length (escapeText input) \<Longrightarrow> escapeText input ! i = CHR ''&'' \<Longrightarrow>
   \<exists>e \<in> set entities. prefix e (drop i (escapeText input))"
proof (induction input arbitrary: i)
  case Nil
  then show ?case by (simp add: escapeText_Nil)
next
  case (Cons c cs)
  let ?e = "escapedEquivalent c"
  show ?case
  proof (cases "i < length ?e")
    case True
    with Cons.prems(2) have "?e ! i = CHR ''&''"
      by (simp add: escapeText_Cons nth_append)
    from escapedEquivalent_amp [OF True this] have "i = 0" "?e \<in> set entities" by auto
    then have "prefix ?e (drop i (escapeText (c # cs)))" by (simp add: escapeText_Cons)
    with \<open>?e \<in> set entities\<close> show ?thesis by blast
  next
    case False
    then have i: "length ?e \<le> i" by simp
    with Cons.prems have "i - length ?e < length (escapeText cs)"
      "escapeText cs ! (i - length ?e) = CHR ''&''"
      by (auto simp: escapeText_Cons nth_append)
    from Cons.IH [OF this] i show ?thesis by (simp add: escapeText_Cons)
  qed
qed

text \<open>
  C7: \<^verbatim>\<open>escapeText\<close> replaces every byte of the input by its escaped equivalent (the
  entity for the five special bytes, the byte itself otherwise). The output holds no
  less-than, greater-than, double-quote or single-quote byte, and an ampersand of the
  output is never raw: at each position where the output holds one, one of the five
  entities starts.
\<close>

theorem escapeText_no_raw_forms:
  "escapeText input = concat (map escapedEquivalent input) \<and>
   CHR ''<'' \<notin> set (escapeText input) \<and> CHR ''>'' \<notin> set (escapeText input) \<and>
   CHR 0x22 \<notin> set (escapeText input) \<and> CHR 0x27 \<notin> set (escapeText input) \<and>
   (\<forall>i < length (escapeText input). escapeText input ! i = CHR ''&'' \<longrightarrow>
      (\<exists>e \<in> set entities. prefix e (drop i (escapeText input))))"
  using escapedEquivalent_no_raw escapeText_amp [of _ input]
  by (auto simp: escapeText_concat)

theorem escapeText_no_raw_forms_witness:
  \<open>escapeText ''<a href="x">Tom & Jerry's</a>'' =
     ''&lt;a href=&quot;x&quot;&gt;Tom &amp; Jerry&apos;s&lt;/a&gt;'' \<and>
   CHR ''<'' \<notin> set (escapeText ''<a href="x">Tom & Jerry's</a>'') \<and>
   (\<exists>e \<in> set entities. prefix e (drop 32 (escapeText ''<a href="x">Tom & Jerry's</a>'')))\<close>
proof -
  let ?s = \<open>''<a href="x">Tom & Jerry's</a>''\<close>
  note t = escapeText_no_raw_forms [of ?s]
  have v: \<open>escapeText ?s = ''&lt;a href=&quot;x&quot;&gt;Tom &amp; Jerry&apos;s&lt;/a&gt;''\<close>
    using t by (simp add: escapedEquivalent_def)
  have l: "32 < length (escapeText ?s)" unfolding v by simp
  have a: "escapeText ?s ! 32 = CHR ''&''" unfolding v by simp
  from t l a have "\<exists>e \<in> set entities. prefix e (drop 32 (escapeText ?s))" by blast
  with t v show ?thesis by blast
qed


subsection \<open>float64: rounding\<close>

lemma bitlen_pos: "0 < n \<Longrightarrow> 0 < bitlen n"
  by (subst bitlen.simps) simp

lemma bitlen_bounds: "0 < n \<Longrightarrow> 2 ^ (bitlen n - 1) \<le> n \<and> n < 2 ^ bitlen n"
proof (induction n rule: bitlen.induct)
  case (1 n)
  show ?case
  proof (cases "n div 2 = 0")
    case True
    with 1(2) have "n = 1" by (cases n) auto
    then show ?thesis by (simp add: bitlen.simps)
  next
    case False
    then have pos: "0 < n div 2" by simp
    from 1(1) [OF _ pos] 1(2)
    have ih: "2 ^ (bitlen (n div 2) - 1) \<le> n div 2" "n div 2 < 2 ^ bitlen (n div 2)" by auto
    have b: "bitlen n = Suc (bitlen (n div 2))" using 1(2) by (subst bitlen.simps) simp
    have p: "0 < bitlen (n div 2)" using pos by (rule bitlen_pos)
    then obtain k where k: "bitlen (n div 2) = Suc k" by (cases "bitlen (n div 2)") auto
    from ih k have "2 * 2 ^ k \<le> n" "n < 2 * 2 ^ Suc k" by auto
    then show ?thesis by (simp add: b k)
  qed
qed

lemma floorLog2_ge1:
  assumes "1 \<le> x"
  shows "2 powi floorLog2 x \<le> x \<and> x < 2 powi (floorLog2 x + 1)"
proof -
  define n where "n = nat \<lfloor>x\<rfloor>"
  have fl: "1 \<le> \<lfloor>x\<rfloor>" using assms by linarith
  then have n: "0 < n" "int n = \<lfloor>x\<rfloor>" by (simp_all add: n_def)
  from bitlen_bounds [OF n(1)] have b: "2 ^ (bitlen n - 1) \<le> n" "n < 2 ^ bitlen n" by auto
  have bp: "0 < bitlen n" using n(1) by (rule bitlen_pos)
  have e: "floorLog2 x = int (bitlen n) - 1" using assms by (simp add: floorLog2_def n_def)
  have lo: "(2::rat) ^ (bitlen n - 1) \<le> of_nat n"
    using b(1) by (metis of_nat_le_iff of_nat_numeral of_nat_power)
  have "(of_nat n :: rat) = of_int \<lfloor>x\<rfloor>" using n(2) by (metis of_int_of_nat_eq)
  then have nx: "of_nat n \<le> x" "x < of_nat n + 1" by linarith+
  have "Suc n \<le> 2 ^ bitlen n" using b(2) by simp
  then have hi: "(of_nat (Suc n) :: rat) \<le> 2 ^ bitlen n"
    by (metis of_nat_le_iff of_nat_numeral of_nat_power)
  have p1: "(2::rat) powi (int (bitlen n) - 1) = 2 ^ (bitlen n - 1)"
    using bp by (simp add: power_int_def nat_diff_distrib')
  have p2: "(2::rat) powi (int (bitlen n) - 1 + 1) = 2 ^ bitlen n"
    by (simp add: power_int_def)
  have "(2::rat) ^ (bitlen n - 1) \<le> x" using lo nx(1) by (rule order_trans)
  moreover have "x < 2 ^ bitlen n" using nx(2) hi by simp
  ultimately show ?thesis unfolding e p1 p2 by simp
qed

lemma floorLog2_lt1:
  assumes "0 < x" "x < 1"
  shows "2 powi floorLog2 x \<le> x \<and> x < 2 powi (floorLog2 x + 1)"
proof -
  define y where "y = 1 / x"
  define n where "n = nat (\<lceil>y\<rceil> - 1)"
  have y1: "1 < y" using assms by (simp add: y_def)
  then have c: "2 \<le> \<lceil>y\<rceil>" by linarith
  then have n: "0 < n" "int n = \<lceil>y\<rceil> - 1" by (simp_all add: n_def)
  from bitlen_bounds [OF n(1)] have b: "2 ^ (bitlen n - 1) \<le> n" "n < 2 ^ bitlen n" by auto
  have bp: "0 < bitlen n" using n(1) by (rule bitlen_pos)
  have e: "floorLog2 x = - int (bitlen n)" using assms by (simp add: floorLog2_def n_def y_def)
  have lo: "(2::rat) ^ (bitlen n - 1) \<le> of_nat n"
    using b(1) by (metis of_nat_le_iff of_nat_numeral of_nat_power)
  have "(of_nat n :: rat) = of_int \<lceil>y\<rceil> - 1"
    using n(2) by (metis of_int_of_nat_eq of_int_diff of_int_1)
  then have ny: "of_nat n < y" "y \<le> of_nat n + 1" by linarith+
  have "Suc n \<le> 2 ^ bitlen n" using b(2) by simp
  then have hi: "(of_nat (Suc n) :: rat) \<le> 2 ^ bitlen n"
    by (metis of_nat_le_iff of_nat_numeral of_nat_power)
  have yhi: "y \<le> 2 ^ bitlen n" using ny(2) hi by simp
  have ylo: "2 ^ (bitlen n - 1) < y" using lo ny(1) by (rule le_less_trans)
  have p1: "(2::rat) powi (- int (bitlen n)) = 1 / 2 ^ bitlen n"
    by (simp add: power_int_def field_simps)
  have p2: "(2::rat) powi (- int (bitlen n) + 1) = 1 / 2 ^ (bitlen n - 1)"
  proof -
    obtain k where k: "bitlen n = Suc k" using bp by (cases "bitlen n") auto
    show ?thesis by (simp add: k power_int_def field_simps)
  qed
  have x: "x = 1 / y" using assms by (simp add: y_def)
  have a: "1 / 2 ^ bitlen n \<le> x"
    using yhi y1 unfolding x by (simp add: field_simps)
  have b': "x < 1 / 2 ^ (bitlen n - 1)"
    using ylo y1 unfolding x by (simp add: field_simps)
  show ?thesis using a b' unfolding e p1 p2 by simp
qed

text \<open>\<open>floorLog2\<close> is the binary exponent: the only \<open>e\<close> with \<open>2\<^sup>e \<le> x < 2\<^sup>e\<^sup>+\<^sup>1\<close>.\<close>

lemma floorLog2_bounds:
  "0 < x \<Longrightarrow> 2 powi floorLog2 x \<le> x \<and> x < 2 powi (floorLog2 x + 1)"
  using floorLog2_ge1 [of x] floorLog2_lt1 [of x] by (cases "1 \<le> x") auto

lemma powi2_mono: "a \<le> b \<Longrightarrow> (2::rat) powi a \<le> 2 powi b"
  by (rule power_int_increasing) simp_all

lemma floorLog2_eqI:
  assumes "2 powi e \<le> x" "x < 2 powi (e + 1)"
  shows "floorLog2 x = e"
proof -
  have "(0::rat) < 2 powi e" by simp
  then have pos: "0 < x" using assms(1) by linarith
  from floorLog2_bounds [OF pos]
  have f: "2 powi floorLog2 x \<le> x" "x < 2 powi (floorLog2 x + 1)" by auto
  have "\<not> floorLog2 x < e"
  proof
    assume "floorLog2 x < e"
    then have "(2::rat) powi (floorLog2 x + 1) \<le> 2 powi e" by (intro powi2_mono) simp
    with f(2) assms(1) show False by linarith
  qed
  moreover have "\<not> e < floorLog2 x"
  proof
    assume "e < floorLog2 x"
    then have "(2::rat) powi (e + 1) \<le> 2 powi floorLog2 x" by (intro powi2_mono) simp
    with f(1) assms(2) show False by linarith
  qed
  ultimately show ?thesis by linarith
qed

lemma roundEven_eqI:
  assumes "\<bar>q - of_int m\<bar> < 1 / 2"
  shows "roundEven q = m"
proof (cases "of_int m \<le> q")
  case True
  with assms have r: "q - of_int m < 1 / 2" by simp
  then have "q < of_int m + 1" by simp
  with True have f: "\<lfloor>q\<rfloor> = m" by (simp add: floor_eq_iff)
  show ?thesis using r by (simp add: roundEven_def f Let_def)
next
  case False
  with assms have r: "of_int m - q < 1 / 2" by simp
  then have "of_int (m - 1) \<le> q" by simp
  moreover have "q < of_int (m - 1) + 1" using False by simp
  ultimately have f: "\<lfloor>q\<rfloor> = m - 1" by (simp add: floor_eq_iff)
  have "1 / 2 < q - of_int (m - 1)" using r by simp
  then show ?thesis by (simp add: roundEven_def f Let_def)
qed

text \<open>
  How a rounding is computed by hand: name the exponent \<open>e\<close> of \<open>x\<close> and the integer \<open>m\<close>
  nearest to \<open>x / 2\<^sup>e\<^sup>-\<^sup>5\<^sup>2\<close>.
\<close>

lemma f64_round_eqI:
  assumes "2 powi e \<le> x" "x < 2 powi (e + 1)" "\<bar>x / 2 powi (e - 52) - of_int m\<bar> < 1 / 2"
  shows "f64_round x = of_int m * 2 powi (e - 52)"
proof -
  have "(0::rat) < 2 powi e" by simp
  then have "x \<noteq> 0" using assms(1) by linarith
  then show ?thesis
    by (simp add: f64_round_def Let_def floorLog2_eqI [OF assms(1,2)] roundEven_eqI [OF assms(3)])
qed

text \<open>An integer below \<open>2\<^sup>5\<^sup>3\<close> is a \<^verbatim>\<open>float64\<close>: rounding leaves it as it is.\<close>

lemma f64_round_exact:
  assumes "0 < m" "m < 2 ^ 53"
  shows "f64_round (of_int m) = of_int m"
proof -
  define x :: rat where "x = of_int m"
  define e where "e = floorLog2 x"
  define k where "k = nat (52 - e)"
  have pos: "0 < x" using assms(1) by (simp add: x_def)
  from floorLog2_bounds [OF pos]
  have b: "2 powi e \<le> x" "x < 2 powi (e + 1)" by (simp_all add: e_def)
  have "\<not> 53 \<le> e"
  proof
    assume "53 \<le> e"
    then have "(2::rat) powi 53 \<le> 2 powi e" by (rule powi2_mono)
    with b(1) have "(2::rat) ^ 53 \<le> x" by simp
    moreover have "x < 2 ^ 53" using assms(2) unfolding x_def
      by (metis of_int_less_iff of_int_numeral of_int_power)
    ultimately show False by simp
  qed
  then have ek: "e - 52 = - int k" by (simp add: k_def)
  have u: "(2::rat) powi (e - 52) = 1 / 2 ^ k"
    unfolding ek by (simp add: power_int_def field_simps)
  have "x / 2 powi (e - 52) = of_int (m * 2 ^ k)" by (simp add: u x_def)
  then have "\<bar>x / 2 powi (e - 52) - of_int (m * 2 ^ k)\<bar> < 1 / 2" by simp
  from f64_round_eqI [OF b this] show ?thesis by (simp add: u x_def)
qed

lemma f64_of_int_exact:
  assumes "\<bar>n\<bar> < 2 ^ 53"
  shows "f64_of_int n = \<lparr>f64_neg = (n < 0), f64_mag = of_int \<bar>n\<bar>\<rparr>"
proof (cases "n = 0")
  case True
  then show ?thesis by (simp add: f64_of_int_def f64_round_def)
next
  case False
  then have "0 < \<bar>n\<bar>" by simp
  from f64_round_exact [OF this assms] show ?thesis by (simp add: f64_of_int_def)
qed


subsection \<open>writeSVG: the bar\<close>

lemma barLoop_contiguous: "contiguous accumX (barLoop uniLower n totalBytes items i accumX)"
  by (induction items arbitrary: i accumX) (simp_all add: Let_def)

lemma barLoop_Cons:
  "barLoop uniLower n totalBytes (item # rest) i accumX =
     (if computedWidth (Bytes item) totalBytes = 0 then barLoop uniLower n totalBytes rest (i + 1) accumX
      else
        \<lparr>seg_x = accumX,
         seg_width = (if i = n - 1 then of_int barX + of_int barWidth - accumX
                      else computedWidth (Bytes item) totalBytes),
         seg_fill = colorForLanguage uniLower (Lang item) (colors ! nat (i smod int (length colors)))\<rparr> #
        barLoop uniLower n totalBytes rest (i + 1)
          (accumX + (if i = n - 1 then of_int barX + of_int barWidth - accumX
                     else computedWidth (Bytes item) totalBytes)))"
  by (simp add: computedWidth_def Let_def)

lemma barLoop_fills_bar:
  "items \<noteq> [] \<Longrightarrow> i + int (length items) = n \<Longrightarrow>
   computedWidth (Bytes (last items)) totalBytes \<noteq> 0 \<Longrightarrow>
   accumX + sum_list (map seg_width (barLoop uniLower n totalBytes items i accumX)) =
     of_int barX + of_int barWidth"
proof (induction items arbitrary: i accumX)
  case Nil
  then show ?case by simp
next
  case (Cons item rest)
  show ?case
  proof (cases "rest = []")
    case True
    with Cons.prems have "i = n - 1" "computedWidth (Bytes item) totalBytes \<noteq> 0" by simp_all
    with True show ?thesis by (simp add: barLoop_Cons del: barLoop.simps(2))
  next
    case False
    then have "0 < length rest" by simp
    with Cons.prems have i: "i \<noteq> n - 1" "(i + 1) + int (length rest) = n" by auto
    from False Cons.prems have l: "computedWidth (Bytes (last rest)) totalBytes \<noteq> 0" by simp
    note ih = Cons.IH [OF False i(2) l]
    show ?thesis
      using ih [of accumX] ih [of "accumX + computedWidth (Bytes item) totalBytes"] i(1)
      by (simp add: barLoop_Cons add.assoc del: barLoop.simps(2))
  qed
qed

lemma barLoop_short:
  "items \<noteq> [] \<Longrightarrow> i + int (length items) = n \<Longrightarrow>
   computedWidth (Bytes (last items)) totalBytes = 0 \<Longrightarrow>
   sum_list (map seg_width (barLoop uniLower n totalBytes items i accumX)) =
     sum_list (map (\<lambda>item. computedWidth (Bytes item) totalBytes) items)"
proof (induction items arbitrary: i accumX)
  case Nil
  then show ?case by simp
next
  case (Cons item rest)
  show ?case
  proof (cases "rest = []")
    case True
    with Cons.prems show ?thesis by (simp add: barLoop_Cons del: barLoop.simps(2))
  next
    case False
    then have "0 < length rest" by simp
    with Cons.prems have i: "i \<noteq> n - 1" "(i + 1) + int (length rest) = n" by auto
    from False Cons.prems have l: "computedWidth (Bytes (last rest)) totalBytes = 0" by simp
    note ih = Cons.IH [OF False i(2) l]
    show ?thesis
      using ih [of accumX] ih [of "accumX + computedWidth (Bytes item) totalBytes"] i(1)
      by (simp add: barLoop_Cons del: barLoop.simps(2))
  qed
qed

lemma barSegments_contiguous: "contiguous (of_int barX) (barSegments uniLower ranked totalBytes)"
  by (simp add: barSegments_def barLoop_contiguous)

lemma barSegments_fills_bar:
  "ranked \<noteq> [] \<Longrightarrow> computedWidth (Bytes (last ranked)) totalBytes \<noteq> 0 \<Longrightarrow>
   sum_list (map seg_width (barSegments uniLower ranked totalBytes)) = of_int barWidth"
  using barLoop_fills_bar [where items = ranked and i = 0 and n = "int (length ranked)"
      and totalBytes = totalBytes and accumX = "of_int barX" and uniLower = uniLower]
  by (simp add: barSegments_def)

lemma barSegments_short:
  "ranked \<noteq> [] \<Longrightarrow> computedWidth (Bytes (last ranked)) totalBytes = 0 \<Longrightarrow>
   sum_list (map seg_width (barSegments uniLower ranked totalBytes)) =
     sum_list (map (\<lambda>item. computedWidth (Bytes item) totalBytes) ranked)"
  using barLoop_short [where items = ranked and i = 0 and n = "int (length ranked)"
      and totalBytes = totalBytes and accumX = "of_int barX" and uniLower = uniLower]
  by (simp add: barSegments_def)

text \<open>The widths of the entries \<open>{Go: 1000, X: 1}\<close>, \<open>{Go: 300, Zig: 100}\<close> in \<^verbatim>\<open>float64\<close>.\<close>

lemma share_1000_1001:
  "share 1000 1001 = \<lparr>f64_neg = False, f64_mag = 8998201053687305 / 2 ^ 53\<rparr>"
proof -
  have "f64_round (1000 / 1001) = of_int 8998201053687305 * 2 powi (- 1 - 52)"
    by (rule f64_round_eqI) simp_all
  then show ?thesis by (simp add: share_def f64_div_def f64_of_int_exact)
qed

lemma computedWidth_1000_1001: "computedWidth 1000 1001 = 583"
proof -
  have "f64_round (584 * (8998201053687305 / 2 ^ 53)) = of_int 5131786538431041 * 2 powi (9 - 52)"
    by (rule f64_round_eqI) simp_all
  then have "f64_mul (f64_of_int barWidth) (share 1000 1001) =
      \<lparr>f64_neg = False, f64_mag = 5131786538431041 / 2 ^ 43\<rparr>"
    by (simp add: f64_mul_def f64_of_int_exact share_1000_1001 barWidth_def width_def
        cardPadding_def)
  moreover have "\<lfloor>5131786538431041 / 2 ^ 43 :: rat\<rfloor> = 583" by (simp add: floor_eq_iff)
  ultimately show ?thesis by (simp add: computedWidth_def int_of_f64_def)
qed

lemma share_1_1001:
  "share 1 1001 = \<lparr>f64_neg = False, f64_mag = 4607078939487900 / 2 ^ 62\<rparr>"
proof -
  have "f64_round (1 / 1001) = of_int 4607078939487900 * 2 powi (- 10 - 52)"
    by (rule f64_round_eqI) simp_all
  then show ?thesis by (simp add: share_def f64_div_def f64_of_int_exact)
qed

lemma computedWidth_1_1001: "computedWidth 1 1001 = 0"
proof -
  have "f64_round (584 * (4607078939487900 / 2 ^ 62)) = of_int 5254949415353386 * 2 powi (- 1 - 52)"
    by (rule f64_round_eqI) simp_all
  then have "f64_mul (f64_of_int barWidth) (share 1 1001) =
      \<lparr>f64_neg = False, f64_mag = 5254949415353386 / 2 ^ 53\<rparr>"
    by (simp add: f64_mul_def f64_of_int_exact share_1_1001 barWidth_def width_def
        cardPadding_def)
  moreover have "\<lfloor>5254949415353386 / 2 ^ 53 :: rat\<rfloor> = 0" by (simp add: floor_eq_iff)
  ultimately show ?thesis by (simp add: computedWidth_def int_of_f64_def)
qed

lemma toLower_Go: "toLower uniLower ''Go'' = ''go''"
  by code_simp

lemma colorForLanguage_Go: "colorForLanguage uniLower ''Go'' fallback = ''#00ADD8''"
  by (simp add: colorForLanguage_def toLower_Go languageColors_def)



text \<open>
  C2 fails on the code. With the ranked sequence \<open>{Go: 1000, X: 1}\<close> the total is 1001,
  the first entry gets \<open>\<lfloor>584 \<sqdot> 1000 / 1001\<rfloor> = 583\<close> units and the width of the last entry
  rounds to zero. The loop skips an entry of width zero before it reaches the rule that
  gives the last entry the rest of the bar, so the bar has the single segment of width
  583 and ends one unit short of its declared width 584. Lemma \<open>barSegments_fills_bar\<close>
  shows that the widths do add up to the bar width whenever the width computed for the
  last entry is not zero, and \<open>barSegments_contiguous\<close> that the segments follow one
  another without a gap.
\<close>

theorem barSegments_short_of_bar:
  "sumBytes [\<lparr>Lang = ''Go'', Bytes = 1000\<rparr>, \<lparr>Lang = ''X'', Bytes = 1\<rparr>] = 1001 \<and>
   barSegments uniLower [\<lparr>Lang = ''Go'', Bytes = 1000\<rparr>, \<lparr>Lang = ''X'', Bytes = 1\<rparr>] 1001 =
     [\<lparr>seg_x = 28, seg_width = 583, seg_fill = ''#00ADD8''\<rparr>] \<and>
   sum_list
     (map seg_width
        (barSegments uniLower [\<lparr>Lang = ''Go'', Bytes = 1000\<rparr>, \<lparr>Lang = ''X'', Bytes = 1\<rparr>] 1001)) = 583 \<and>
   sum_list
     (map (\<lambda>seg. sint (seg_width seg))
        (barSegments uniLower [\<lparr>Lang = ''Go'', Bytes = 1000\<rparr>, \<lparr>Lang = ''X'', Bytes = 1\<rparr>] 1001)) = 583 \<and>
   barWidth = 584"
proof -
  have "barSegments uniLower [\<lparr>Lang = ''Go'', Bytes = 1000\<rparr>, \<lparr>Lang = ''X'', Bytes = 1\<rparr>] 1001 =
     [\<lparr>seg_x = 28, seg_width = 583, seg_fill = ''#00ADD8''\<rparr>]"
    by (simp add: barSegments_def barLoop_Cons computedWidth_1000_1001 computedWidth_1_1001
        barX_def cardPadding_def colorForLanguage_Go del: barLoop.simps(2))
  then show ?thesis by (simp add: sumBytes_def barWidth_def width_def cardPadding_def)
qed

text \<open>
  The width of an entry is computed in \<^verbatim>\<open>float64\<close> and can fall below the share rounded
  down: 191 bytes of 584 are 191 units of the bar, and the program computes 190, because
  the quotient \<open>191 / 584\<close> is rounded down to a \<^verbatim>\<open>float64\<close> before it is multiplied by 584.
\<close>

lemma computedWidth_191_584: "computedWidth 191 584 = 190"
proof -
  have "f64_round (191 / 584) = of_int 5891695402929895 * 2 powi (- 2 - 52)"
    by (rule f64_round_eqI) simp_all
  then have s: "share 191 584 = \<lparr>f64_neg = False, f64_mag = 5891695402929895 / 2 ^ 54\<rparr>"
    by (simp add: share_def f64_div_def f64_of_int_exact)
  have "f64_round (584 * (5891695402929895 / 2 ^ 54)) = of_int 6720215068966911 * 2 powi (7 - 52)"
    by (rule f64_round_eqI) simp_all
  then have "f64_mul (f64_of_int barWidth) (share 191 584) =
      \<lparr>f64_neg = False, f64_mag = 6720215068966911 / 2 ^ 45\<rparr>"
    by (simp add: f64_mul_def f64_of_int_exact s barWidth_def width_def cardPadding_def)
  moreover have "\<lfloor>6720215068966911 / 2 ^ 45 :: rat\<rfloor> = 190" by (simp add: floor_eq_iff)
  ultimately show ?thesis by (simp add: computedWidth_def int_of_f64_def)
qed

subsection \<open>writeSVG: a chart of three languages\<close>

text \<open>
  The ranking \<open>{Go: 300, Python: 100, TeX: 50}\<close>: the segments of the bar, the percentage
  printed for the first entry, and the text of a segment.
\<close>

lemma share_300_450:
  "share 300 450 = \<lparr>f64_neg = False, f64_mag = 6004799503160661 / 2 ^ 53\<rparr>"
proof -
  have "f64_round (300 / 450) = of_int 6004799503160661 * 2 powi (- 1 - 52)"
    by (rule f64_round_eqI) simp_all
  then show ?thesis by (simp add: share_def f64_div_def f64_of_int_exact)
qed

lemma share_100_450:
  "share 100 450 = \<lparr>f64_neg = False, f64_mag = 8006399337547548 / 2 ^ 55\<rparr>"
proof -
  have "f64_round (100 / 450) = of_int 8006399337547548 * 2 powi (- 3 - 52)"
    by (rule f64_round_eqI) simp_all
  then show ?thesis by (simp add: share_def f64_div_def f64_of_int_exact)
qed

lemma share_50_450:
  "share 50 450 = \<lparr>f64_neg = False, f64_mag = 8006399337547548 / 2 ^ 56\<rparr>"
proof -
  have "f64_round (50 / 450) = of_int 8006399337547548 * 2 powi (- 4 - 52)"
    by (rule f64_round_eqI) simp_all
  then show ?thesis by (simp add: share_def f64_div_def f64_of_int_exact)
qed

lemma computedWidth_300_450: "computedWidth 300 450 = 389"
proof -
  have "f64_round (584 * (6004799503160661 / 2 ^ 53)) = of_int 6849224433292629 * 2 powi (8 - 52)"
    by (rule f64_round_eqI) simp_all
  then have "f64_mul (f64_of_int barWidth) (share 300 450) =
      \<lparr>f64_neg = False, f64_mag = 6849224433292629 / 2 ^ 44\<rparr>"
    by (simp add: f64_mul_def f64_of_int_exact share_300_450 barWidth_def width_def
        cardPadding_def)
  moreover have "\<lfloor>6849224433292629 / 2 ^ 44 :: rat\<rfloor> = 389" by (simp add: floor_eq_iff)
  ultimately show ?thesis by (simp add: computedWidth_def int_of_f64_def)
qed

lemma computedWidth_100_450: "computedWidth 100 450 = 129"
proof -
  have "f64_round (584 * (8006399337547548 / 2 ^ 55)) = of_int 4566149622195086 * 2 powi (7 - 52)"
    by (rule f64_round_eqI) simp_all
  then have "f64_mul (f64_of_int barWidth) (share 100 450) =
      \<lparr>f64_neg = False, f64_mag = 4566149622195086 / 2 ^ 45\<rparr>"
    by (simp add: f64_mul_def f64_of_int_exact share_100_450 barWidth_def width_def
        cardPadding_def)
  moreover have "\<lfloor>4566149622195086 / 2 ^ 45 :: rat\<rfloor> = 129" by (simp add: floor_eq_iff)
  ultimately show ?thesis by (simp add: computedWidth_def int_of_f64_def)
qed

lemma computedWidth_50_450: "computedWidth 50 450 = 64"
proof -
  have "f64_round (584 * (8006399337547548 / 2 ^ 56)) = of_int 4566149622195086 * 2 powi (6 - 52)"
    by (rule f64_round_eqI) simp_all
  then have "f64_mul (f64_of_int barWidth) (share 50 450) =
      \<lparr>f64_neg = False, f64_mag = 4566149622195086 / 2 ^ 46\<rparr>"
    by (simp add: f64_mul_def f64_of_int_exact share_50_450 barWidth_def width_def
        cardPadding_def)
  moreover have "\<lfloor>4566149622195086 / 2 ^ 46 :: rat\<rfloor> = 64" by (simp add: floor_eq_iff)
  ultimately show ?thesis by (simp add: computedWidth_def int_of_f64_def)
qed

lemma colorForLanguage_Python: "colorForLanguage uniLower ''Python'' fallback = ''#3572A5''"
proof -
  have "toLower uniLower ''Python'' = ''python''" by code_simp
  then show ?thesis by (simp add: colorForLanguage_def languageColors_def)
qed

lemma colorForLanguage_TeX: "colorForLanguage uniLower ''TeX'' fallback = fallback"
proof -
  have "toLower uniLower ''TeX'' = ''tex''" by code_simp
  then show ?thesis by (simp add: colorForLanguage_def languageColors_def)
qed

lemma barSegments_scenario:
  "barSegments uniLower
     [\<lparr>Lang = ''Go'', Bytes = 300\<rparr>, \<lparr>Lang = ''Python'', Bytes = 100\<rparr>,
      \<lparr>Lang = ''TeX'', Bytes = 50\<rparr>] 450 =
     [\<lparr>seg_x = 28, seg_width = 389, seg_fill = ''#00ADD8''\<rparr>,
      \<lparr>seg_x = 417, seg_width = 129, seg_fill = ''#3572A5''\<rparr>,
      \<lparr>seg_x = 546, seg_width = 66, seg_fill = ''#27ae60''\<rparr>]"
  by (simp add: barSegments_def barLoop_Cons computedWidth_300_450 computedWidth_100_450
      computedWidth_50_450 barX_def barWidth_def width_def cardPadding_def colorForLanguage_Go
      colorForLanguage_Python colorForLanguage_TeX colors_def signed_modulo_int_def
      del: barLoop.simps(2))

lemma percent_scenario: "fmt_2f (f64_mul (share 300 450) (f64_of_int 100)) = ''66.67''"
proof -
  have "f64_round (6004799503160661 / 2 ^ 53 * 100) = of_int 4691249611844266 * 2 powi (6 - 52)"
    by (rule f64_round_eqI) simp_all
  then have p: "f64_mul (share 300 450) (f64_of_int 100) =
      \<lparr>f64_neg = False, f64_mag = 4691249611844266 / 2 ^ 46\<rparr>"
    by (simp add: f64_mul_def f64_of_int_exact share_300_450)
  have r: "roundEven (f64_mag \<lparr>f64_neg = False, f64_mag = 4691249611844266 / 2 ^ 46\<rparr> * 100) = 6667"
    by (rule roundEven_eqI) simp
  have d: "showNat 66 = ''66''" "digitChar 6 = CHR ''6''" "digitChar 7 = CHR ''7''"
    by code_simp+
  show ?thesis unfolding fmt_2f_def p r by (simp add: d)
qed

lemma fmt_d_examples: "fmt_d 584 = ''584''" "fmt_d 0 = ''0''" "fmt_d (- 12) = ''-12''"
  by code_simp+

lemma segmentRect_example:
  \<open>segmentRect 112 \<lparr>seg_x = 28, seg_width = 389, seg_fill = ''#00ADD8''\<rparr> =
     ''<rect x="28" y="112" width="389" height="14" fill="#00ADD8" clip-path="url(#barClip)"/>'' @
     [CHR 0x0A]\<close>
  by code_simp


subsection \<open>writeSVG: the colours\<close>





lemma resolveColor_case_insensitive:
  "toLower uniLower lang = toLower uniLower lang' \<Longrightarrow> resolveColor uniLower lang i = resolveColor uniLower lang' i"
  by (simp add: resolveColor_def)



subsection \<open>writeSVG and main: nothing to chart\<close>

lemma writeSVG_no_data:
  "ranked = [] \<or> sumBytes ranked = 0 \<Longrightarrow>
   writeSVG uniLower os path ranked owner excluded fs = (Some (Error ''no language data to chart''), fs)"
  by (auto simp: writeSVG_def)

lemma writeSVG_data:
  "ranked \<noteq> [] \<Longrightarrow> sumBytes ranked \<noteq> 0 \<Longrightarrow>
   writeSVG uniLower os path ranked owner excluded fs =
     (case os_MkdirAll os (filepath_Dir os path) fs of
        (err, fs') \<Rightarrow>
          if err \<noteq> None \<and> filepath_Dir os path \<noteq> ''.'' then (err, fs')
          else os_WriteFile os path (svgProlog @ svgBody uniLower ranked excluded (sumBytes ranked)) fs')"
  by (simp add: writeSVG_def Let_def)

lemma mainPipeline_no_repos:
  "filterRepos merged repos = [] \<Longrightarrow>
   mainPipeline uniLower os getJSON merged repos fs = (Some (Error ''no repositories after filtering''), fs)"
  by (simp add: mainPipeline_def)

text \<open>
  C6: when the ranked sequence is empty or its byte sum is zero, as an \<^verbatim>\<open>int64\<close> sum or
  as a sum of integers, \<^verbatim>\<open>writeSVG\<close> returns the error "no language data to chart" and
  leaves the file system as it was;
  when no repository is left after filtering, the pipeline ends with the error
  "no repositories after filtering" and leaves the file system as it was.
\<close>

theorem no_data_no_image:
  "(ranked = [] \<or> sumBytes ranked = 0 \<or> intSum ranked = 0 \<longrightarrow>
      writeSVG uniLower os path ranked owner excluded fs =
        (Some (Error ''no language data to chart''), fs)) \<and>
   (filterRepos merged repos = [] \<longrightarrow>
      mainPipeline uniLower os getJSON merged repos fs =
        (Some (Error ''no repositories after filtering''), fs))"
  using writeSVG_no_data [of ranked uniLower os path owner excluded fs] intSum_zero [of ranked]
    mainPipeline_no_repos [of merged repos uniLower os getJSON fs]
  by blast

theorem no_data_no_image_witness:
  "writeSVG keepBytes memOS ''lang-rank.svg'' [] ''o'' [] Map.empty =
     (Some (Error ''no language data to chart''), Map.empty) \<and>
   writeSVG keepBytes memOS ''lang-rank.svg'' [\<lparr>Lang = ''Go'', Bytes = 0\<rparr>] ''o'' [] Map.empty =
     (Some (Error ''no language data to chart''), Map.empty) \<and>
   mainPipeline keepBytes memOS sampleSource sampleConfig [repoA\<lparr>Fork := True\<rparr>] Map.empty =
     (Some (Error ''no repositories after filtering''), Map.empty)"
proof -
  have h1: "([] :: langStat list) = [] \<or> sumBytes [] = 0 \<or> intSum [] = 0" by simp
  have h2: "[\<lparr>Lang = ''Go'', Bytes = 0\<rparr>] = [] \<or> sumBytes [\<lparr>Lang = ''Go'', Bytes = 0\<rparr>] = 0 \<or>
      intSum [\<lparr>Lang = ''Go'', Bytes = 0\<rparr>] = 0"
    by (simp add: sumBytes_def)
  have h3: "filterRepos sampleConfig [repoA\<lparr>Fork := True\<rparr>] = []"
    by (simp add: sampleConfig_def)
  from h1
    no_data_no_image [where uniLower = keepBytes and ranked = "[]" and os = memOS and path = "''lang-rank.svg''"
      and owner = "''o''" and excluded = "[]" and fs = Map.empty]
  have a: "writeSVG keepBytes memOS ''lang-rank.svg'' [] ''o'' [] Map.empty =
     (Some (Error ''no language data to chart''), Map.empty)" by blast
  from h2
    no_data_no_image [where uniLower = keepBytes and ranked = "[\<lparr>Lang = ''Go'', Bytes = 0\<rparr>]" and os = memOS
      and path = "''lang-rank.svg''" and owner = "''o''" and excluded = "[]" and fs = Map.empty]
  have b: "writeSVG keepBytes memOS ''lang-rank.svg'' [\<lparr>Lang = ''Go'', Bytes = 0\<rparr>] ''o'' [] Map.empty =
     (Some (Error ''no language data to chart''), Map.empty)" by blast
  from h3
    no_data_no_image [where uniLower = keepBytes and merged = sampleConfig and repos = "[repoA\<lparr>Fork := True\<rparr>]"
      and os = memOS and getJSON = sampleSource and fs = Map.empty]
  have c: "mainPipeline keepBytes memOS sampleSource sampleConfig [repoA\<lparr>Fork := True\<rparr>] Map.empty =
     (Some (Error ''no repositories after filtering''), Map.empty)" by blast
  from a b c show ?thesis by blast
qed

subsection \<open>writeSVG: the owner label\<close>

text \<open>
  C10: two calls of \<^verbatim>\<open>writeSVG\<close> that differ in the owner argument only have the same
  result and leave the same file system. When there is data to chart, the content handed
  to \<^verbatim>\<open>os.WriteFile\<close> is the prolog followed by the body, which are computed from the
  ranked sequence and the excluded list alone.
\<close>

theorem writeSVG_ignores_owner:
  "writeSVG uniLower os path ranked owner excluded fs = writeSVG uniLower os path ranked owner' excluded fs \<and>
   (ranked \<noteq> [] \<and> sumBytes ranked \<noteq> 0 \<longrightarrow>
      writeSVG uniLower os path ranked owner excluded fs =
        (case os_MkdirAll os (filepath_Dir os path) fs of
           (err, fs') \<Rightarrow>
             if err \<noteq> None \<and> filepath_Dir os path \<noteq> ''.'' then (err, fs')
             else os_WriteFile os path
                    (svgProlog @ svgBody uniLower ranked excluded (sumBytes ranked)) fs'))"
  using writeSVG_data [of ranked uniLower os path owner excluded fs]
  by (simp add: writeSVG_def)

theorem writeSVG_ignores_owner_witness:
  "writeSVG keepBytes memOS ''a.svg'' [\<lparr>Lang = ''Go'', Bytes = 1\<rparr>] ''alice'' [''TeX''] Map.empty =
   writeSVG keepBytes memOS ''a.svg'' [\<lparr>Lang = ''Go'', Bytes = 1\<rparr>] ''bob'' [''TeX''] Map.empty \<and>
   writeSVG keepBytes memOS ''a.svg'' [\<lparr>Lang = ''Go'', Bytes = 1\<rparr>] ''alice'' [''TeX''] Map.empty =
     (None, [''a.svg'' \<mapsto> svgProlog @ svgBody keepBytes [\<lparr>Lang = ''Go'', Bytes = 1\<rparr>] [''TeX''] 1])"
proof -
  let ?r = "[\<lparr>Lang = ''Go'', Bytes = 1\<rparr>]"
  have h: "?r \<noteq> [] \<and> sumBytes ?r \<noteq> 0" by (simp add: sumBytes_def)
  have s: "sumBytes ?r = 1" by (simp add: sumBytes_def)
  note t = writeSVG_ignores_owner [where uniLower = keepBytes and os = memOS and path = "''a.svg''" and ranked = ?r
      and owner = "''alice''" and owner' = "''bob''" and excluded = "[''TeX'']"
      and fs = Map.empty]
  from t have "writeSVG keepBytes memOS ''a.svg'' ?r ''alice'' [''TeX''] Map.empty =
     writeSVG keepBytes memOS ''a.svg'' ?r ''bob'' [''TeX''] Map.empty" by blast
  moreover from t h have "writeSVG keepBytes memOS ''a.svg'' ?r ''alice'' [''TeX''] Map.empty =
     (case os_MkdirAll memOS (filepath_Dir memOS ''a.svg'') Map.empty of
        (err, fs') \<Rightarrow>
          if err \<noteq> None \<and> filepath_Dir memOS ''a.svg'' \<noteq> ''.'' then (err, fs')
          else os_WriteFile memOS ''a.svg'' (svgProlog @ svgBody keepBytes ?r [''TeX''] (sumBytes ?r)) fs')"
    by blast
  moreover have "\<dots> = (None, [''a.svg'' \<mapsto> svgProlog @ svgBody keepBytes ?r [''TeX''] 1])"
    by (simp add: memOS_def s)
  ultimately show ?thesis by (simp only:)
qed

end
